theory Spec2Isabelle
  imports Main
begin

section \<open>Exceptions and results\<close>

text \<open>
  The two exception classes of \<^verbatim>\<open>Matrix.h\<close> carry the pair of integers given to their
  constructors. \<^verbatim>\<open>new T[r*c]\<close> with a negative length throws the library's
  \<^verbatim>\<open>std::bad_array_new_length\<close>. A function that can throw returns a sum, \<open>Inl\<close> being
  the exception; \<open>bindE\<close> is sequencing: the first exception ends the computation.
\<close>

datatype error = BadArrayAccess int int | IllegalViewSize int int | BadArrayNewLength

definition bindE :: "error + 'x \<Rightarrow> ('x \<Rightarrow> error + 'y) \<Rightarrow> error + 'y" where
  "bindE m f = (case m of Inl e \<Rightarrow> Inl e | Inr x \<Rightarrow> f x)"

text \<open>
  C++ integer division truncates towards zero and \<^verbatim>\<open>%\<close> takes the sign of the dividend.
  Indices and sizes are \<^verbatim>\<open>int\<close>, modelled by unbounded integers. Signed overflow is
  undefined behaviour in C++; where a sum can overflow on operands that nothing
  bounds, in the check of \<^verbatim>\<open>makeView\<close>, the model writes out the wrap-around to 32
  bits (\<open>wrap32\<close> below).
\<close>

definition tdiv :: "int \<Rightarrow> int \<Rightarrow> int" where
  "tdiv x y = sgn x * sgn y * (\<bar>x\<bar> div \<bar>y\<bar>)"

definition tmod :: "int \<Rightarrow> int \<Rightarrow> int" where
  "tmod x y = x - y * tdiv x y"

section \<open>Matrix and View\<close>

text \<open>
  A \<^verbatim>\<open>Matrix<T>\<close> object: its two dimensions and its row-major buffer. Matrix objects
  live in a heap, a list indexed by address; a reference to a Matrix is its address.
  The heap is a stack of objects: a declaration appends, leaving the scope drops what
  the scope declared.
\<close>

record 'a Matrix =
  rows :: int
  cols :: int
  data :: "'a list"

type_synonym 'a heap = "'a Matrix list"

text \<open>
  \<^verbatim>\<open>Viewable<T>\<close> has two implementations. A \<^verbatim>\<open>View<T>\<close> holds a reference to the
  surface it is based on and four integers; views are never mutated after construction
  in this repository (\<^verbatim>\<open>operator=\<close> is not called), so a view is modelled by its value.
\<close>

datatype Viewable =
    MatrixAt nat
  | View (base: Viewable) (rowOffset: int) (colOffset: int) (maxRows: int) (maxCols: int)

text \<open>The result of \<^verbatim>\<open>operator()\<close> is a \<^verbatim>\<open>T&\<close>: a matrix address and an index into its buffer.\<close>

type_synonym loc = "nat \<times> nat"

text \<open>
  \<^verbatim>\<open>Matrix(int r, int c)\<close>: the elements of \<^verbatim>\<open>new T[r*c]\<close> are indeterminate in C++; the
  model fixes them to 0.
\<close>

definition Matrix_new :: "int \<Rightarrow> int \<Rightarrow> error + ('a::zero) Matrix" where
  "Matrix_new r c =
     (if r * c < 0 then Inl BadArrayNewLength
      else Inr \<lparr>rows = r, cols = c, data = replicate (nat (r * c)) 0\<rparr>)"

text \<open>
  \<^verbatim>\<open>operator()\<close> with \<^verbatim>\<open>mDebug\<close> defined (it is, line 8). First equation:
  \<^verbatim>\<open>Matrix<T>::operator()\<close>, lines 99-105; second: \<^verbatim>\<open>View<T>::operator()\<close>, lines 64-70, whose
  call \<^verbatim>\<open>base(row + rowOffset, col + colOffset)\<close> is the virtual call.
\<close>

fun get :: "'a heap \<Rightarrow> Viewable \<Rightarrow> int \<Rightarrow> int \<Rightarrow> error + loc" where
  "get h (MatrixAt p) row col =
     (if row < 0 \<or> row \<ge> rows (h ! p) \<or> col < 0 \<or> col \<ge> cols (h ! p)
      then Inl (BadArrayAccess row col)
      else Inr (p, nat (row * cols (h ! p) + col)))"
| "get h (View b rowOff colOff mRows mCols) row col =
     (if row < 0 \<or> row \<ge> mRows \<or> col < 0 \<or> col \<ge> mCols
      then Inl (BadArrayAccess row col)
      else get h b (row + rowOff) (col + colOff))"

text \<open>
  The value of a sum of two \<^verbatim>\<open>int\<close>s. The indices and extents of the source are 32-bit
  \<^verbatim>\<open>int\<close>s; a sum beyond \<^verbatim>\<open>INT_MAX\<close> is undefined behaviour in C++, and the model gives
  it the two's complement value that the usual targets compute. The wrap-around is
  written out in \<^verbatim>\<open>makeView\<close>, which adds operands that come unchecked from the caller.
  In \<^verbatim>\<open>operator()\<close> the sums are taken after the check of the index, and on a view
  that satisfies the invariant of View they are bounded by a dimension of the Matrix.
\<close>

definition wrap32 :: "int \<Rightarrow> int" where
  "wrap32 x = (x + 2147483648) mod 4294967296 - 2147483648"

text \<open>
  \<^verbatim>\<open>makeView\<close>: \<^verbatim>\<open>Matrix<T>::makeView\<close>, lines 107-114, and \<^verbatim>\<open>View<T>::makeView\<close>, lines 72-79.
  The sums \<^verbatim>\<open>r + rows\<close> and \<^verbatim>\<open>c + cols\<close> of the check are sums of \<^verbatim>\<open>int\<close>s. The exception
  carries the requested extent.
\<close>

fun makeView :: "'a heap \<Rightarrow> Viewable \<Rightarrow> int \<Rightarrow> int \<Rightarrow> int \<Rightarrow> int \<Rightarrow> error + Viewable" where
  "makeView h (MatrixAt p) r c rowCount colCount =
     (if r < 0 \<or> wrap32 (r + rowCount) > rows (h ! p) \<or> c < 0 \<or> wrap32 (c + colCount) > cols (h ! p)
      then Inl (IllegalViewSize rowCount colCount)
      else Inr (View (MatrixAt p) r c rowCount colCount))"
| "makeView h (View b rowOff colOff mRows mCols) r c rowCount colCount =
     (if r < 0 \<or> wrap32 (r + rowCount) > mRows \<or> c < 0 \<or> wrap32 (c + colCount) > mCols
      then Inl (IllegalViewSize rowCount colCount)
      else Inr (View (View b rowOff colOff mRows mCols) r c rowCount colCount))"

text \<open>The copy constructor of \<^verbatim>\<open>View<T>\<close>, lines 52-54.\<close>

definition View_copy :: "Viewable \<Rightarrow> Viewable" where
  "View_copy other =
     View (base other) (rowOffset other) (colOffset other) (maxRows other) (maxCols other)"

text \<open>
  \<^verbatim>\<open>View<T>::operator=\<close>, lines 55-62. The member \<^verbatim>\<open>base\<close> is a reference
  (\<^verbatim>\<open>Viewable<T> &base\<close>, line 81). A C++ reference cannot be reseated: the statement
  \<^verbatim>\<open>base = other.base\<close> assigns to the object \<^verbatim>\<open>base\<close> refers to, through the implicit copy
  assignment of \<^verbatim>\<open>Viewable<T>\<close>, a class without data members, so it changes nothing. The
  four integers are assigned.
\<close>

definition View_assign :: "Viewable \<Rightarrow> Viewable \<Rightarrow> Viewable" where
  "View_assign this other =
     View (base this) (rowOffset other) (colOffset other) (maxRows other) (maxCols other)"

text \<open>Reading and writing through the reference that \<^verbatim>\<open>operator()\<close> returns.\<close>

definition load :: "'a heap \<Rightarrow> loc \<Rightarrow> 'a" where
  "load h l = data (h ! fst l) ! snd l"

definition store :: "'a heap \<Rightarrow> loc \<Rightarrow> 'a \<Rightarrow> 'a heap" where
  "store h l x = h[fst l := (h ! fst l)\<lparr>data := (data (h ! fst l))[snd l := x]\<rparr>]"

text \<open>The expression \<^verbatim>\<open>v(i, j)\<close> used as a value, and the statement \<^verbatim>\<open>v(i, j) = x\<close>.\<close>

definition rd :: "'a heap \<Rightarrow> Viewable \<Rightarrow> int \<Rightarrow> int \<Rightarrow> error + 'a" where
  "rd h v i j = bindE (get h v i j) (\<lambda>l. Inr (load h l))"

definition wr :: "'a heap \<Rightarrow> Viewable \<Rightarrow> int \<Rightarrow> int \<Rightarrow> 'a \<Rightarrow> error + 'a heap" where
  "wr h v i j x = bindE (get h v i j) (\<lambda>l. Inr (store h l x))"

section \<open>Loops\<close>

text \<open>
  \<^verbatim>\<open>for (int i = i0; i < n; i++) body\<close>, the body being a state transformer that may
  throw. The OpenMP pragmas are not modelled: the loops run in program order, which is
  the execution with one thread.
\<close>

function for_loop :: "int \<Rightarrow> int \<Rightarrow> (int \<Rightarrow> 's \<Rightarrow> error + 's) \<Rightarrow> 's \<Rightarrow> error + 's" where
  "for_loop i n body s =
     (if i < n
      then (case body i s of Inl e \<Rightarrow> Inl e | Inr s' \<Rightarrow> for_loop (i + 1) n body s')
      else Inr s)"
  by pat_completeness auto
termination
  by (relation "measure (\<lambda>(i, n, body, s). nat (n - i))") auto

text \<open>The doubly nested loop over \<open>i\<close> and \<open>j\<close> from 0 to \<open>n\<close>, lines 209-211 and alike.\<close>

definition for_ij :: "int \<Rightarrow> (int \<Rightarrow> int \<Rightarrow> 's \<Rightarrow> error + 's) \<Rightarrow> 's \<Rightarrow> error + 's" where
  "for_ij n body = for_loop 0 n (\<lambda>i. for_loop 0 n (\<lambda>j. body i j))"

section \<open>Multiplication\<close>

text \<open>
  \<^verbatim>\<open>Matrix<T>::Multiplication\<close>, lines 143-153. In \<^verbatim>\<open>c(i,j) = c(i,j) + a(i,k) * b(k,j)\<close> the
  three reads are modelled left to right, then the write.
\<close>

definition Multiplication ::
  "Viewable \<Rightarrow> Viewable \<Rightarrow> Viewable \<Rightarrow> int \<Rightarrow> ('a::semiring_0) heap \<Rightarrow> error + 'a heap" where
  "Multiplication a b c sz h =
     for_ij sz (\<lambda>i j h.
       bindE (wr h c i j 0) (for_loop 0 sz (\<lambda>k h.
         bindE (rd h c i j) (\<lambda>x. bindE (rd h a i k) (\<lambda>y. bindE (rd h b k j) (\<lambda>z.
           wr h c i j (x + y * z))))))) h"

section \<open>The recursive multiplication\<close>

text \<open>The four \<^verbatim>\<open>makeView\<close> calls that cut a surface into quadrants, lines 175-178 (183, 186).\<close>

definition quadrants ::
  "'a heap \<Rightarrow> Viewable \<Rightarrow> int \<Rightarrow> error + Viewable \<times> Viewable \<times> Viewable \<times> Viewable" where
  "quadrants h v hh =
     bindE (makeView h v 0 0 hh hh) (\<lambda>v11.
     bindE (makeView h v 0 hh hh hh) (\<lambda>v12.
     bindE (makeView h v hh 0 hh hh) (\<lambda>v21.
     bindE (makeView h v hh hh hh hh) (\<lambda>v22.
     Inr (v11, v12, v21, v22)))))"

text \<open>
  One line of lines 190-206: \<^verbatim>\<open>Matrix<T> s1(hh, hh); s.push_back(s1.makeView(0, 0, hh, hh));\<close>
  The new Matrix takes the next address; \<^verbatim>\<open>push_back\<close> copy-constructs the view.
\<close>

definition new_temp :: "int \<Rightarrow> ('a::zero) heap \<Rightarrow> error + Viewable \<times> 'a heap" where
  "new_temp hh h =
     bindE (Matrix_new hh hh) (\<lambda>m.
     bindE (makeView (h @ [m]) (MatrixAt (length h)) 0 0 hh hh) (\<lambda>v.
     Inr (View_copy v, h @ [m])))"

text \<open>\<open>k\<close> such lines in a row; the views in declaration order, as in the vector.\<close>

fun new_temps :: "nat \<Rightarrow> int \<Rightarrow> ('a::zero) heap \<Rightarrow> error + Viewable list \<times> 'a heap" where
  "new_temps 0 hh h = Inr ([], h)"
| "new_temps (Suc k) hh h =
     bindE (new_temp hh h) (\<lambda>(v, h1).
     bindE (new_temps k hh h1) (\<lambda>(vs, h2).
     Inr (v # vs, h2)))"

text \<open>
  The loop bodies: \<^verbatim>\<open>dst(i, j) = x(i, j) op y(i, j)\<close> and the four-operand form of
  lines 300 and 321. The operands are read left to right, then the target is written.
\<close>

definition assign2 ::
  "Viewable \<Rightarrow> ('a \<Rightarrow> 'a \<Rightarrow> 'a) \<Rightarrow> Viewable \<Rightarrow> Viewable \<Rightarrow> int \<Rightarrow> int \<Rightarrow> 'a heap \<Rightarrow> error + 'a heap" where
  "assign2 dst f x y i j h =
     bindE (rd h x i j) (\<lambda>u. bindE (rd h y i j) (\<lambda>v. wr h dst i j (f u v)))"

definition assign4 ::
  "Viewable \<Rightarrow> ('a \<Rightarrow> 'a \<Rightarrow> 'a \<Rightarrow> 'a \<Rightarrow> 'a) \<Rightarrow> Viewable \<Rightarrow> Viewable \<Rightarrow> Viewable \<Rightarrow> Viewable
     \<Rightarrow> int \<Rightarrow> int \<Rightarrow> 'a heap \<Rightarrow> error + 'a heap" where
  "assign4 dst f x y z w i j h =
     bindE (rd h x i j) (\<lambda>t. bindE (rd h y i j) (\<lambda>u. bindE (rd h z i j) (\<lambda>v.
     bindE (rd h w i j) (\<lambda>q. wr h dst i j (f t u v q)))))"

text \<open>The ten loops of lines 208-277.\<close>

definition compute_s ::
  "Viewable \<times> Viewable \<times> Viewable \<times> Viewable \<Rightarrow> Viewable \<times> Viewable \<times> Viewable \<times> Viewable
     \<Rightarrow> Viewable list \<Rightarrow> int \<Rightarrow> ('a::ring) heap \<Rightarrow> error + 'a heap" where
  "compute_s qa qb s hh h =
    (case qa of (a11, a12, a21, a22) \<Rightarrow> case qb of (b11, b12, b21, b22) \<Rightarrow>
     bindE (for_ij hh (assign2 (s ! 0) (-) b12 b22) h) (\<lambda>h.
     bindE (for_ij hh (assign2 (s ! 1) (+) a11 a12) h) (\<lambda>h.
     bindE (for_ij hh (assign2 (s ! 2) (+) a21 a22) h) (\<lambda>h.
     bindE (for_ij hh (assign2 (s ! 3) (-) b21 b11) h) (\<lambda>h.
     bindE (for_ij hh (assign2 (s ! 4) (+) a11 a22) h) (\<lambda>h.
     bindE (for_ij hh (assign2 (s ! 5) (+) b11 b22) h) (\<lambda>h.
     bindE (for_ij hh (assign2 (s ! 6) (-) a12 a22) h) (\<lambda>h.
     bindE (for_ij hh (assign2 (s ! 7) (+) b21 b22) h) (\<lambda>h.
     bindE (for_ij hh (assign2 (s ! 8) (-) a11 a21) h) (\<lambda>h.
           for_ij hh (assign2 (s ! 9) (+) b11 b12) h))))))))))"

text \<open>The four loops of lines 296-323.\<close>

definition combine ::
  "Viewable \<times> Viewable \<times> Viewable \<times> Viewable \<Rightarrow> Viewable list \<Rightarrow> int \<Rightarrow> ('a::ring) heap
     \<Rightarrow> error + 'a heap" where
  "combine qc p hh h =
    (case qc of (c11, c12, c21, c22) \<Rightarrow>
     bindE (for_ij hh (assign4 c11 (\<lambda>t u v q. t + u - v + q) (p ! 4) (p ! 3) (p ! 1) (p ! 5)) h) (\<lambda>h.
     bindE (for_ij hh (assign2 c12 (+) (p ! 0) (p ! 1)) h) (\<lambda>h.
     bindE (for_ij hh (assign2 c21 (+) (p ! 2) (p ! 3)) h) (\<lambda>h.
           for_ij hh (assign4 c22 (\<lambda>t u v q. t + u - v - q) (p ! 4) (p ! 0) (p ! 2) (p ! 6)) h))))"

text \<open>
  \<^verbatim>\<open>Matrix<T>::P_Strassen\<close>, lines 155-324 (the parameter \<^verbatim>\<open>size\<close> is \<open>sz\<close>). The seven
  sections of lines 278-294 run one after the other in program order. On return the
  destructors of the seventeen local matrices run: the heap is cut back to the
  objects that were alive at the call.
\<close>

function P_Strassen ::
  "Viewable \<Rightarrow> Viewable \<Rightarrow> Viewable \<Rightarrow> int \<Rightarrow> int \<Rightarrow> ('a::ring) heap \<Rightarrow> error + 'a heap" where
  "P_Strassen a b c sz level h =
    (if sz = 1 then
       bindE (rd h a 0 0) (\<lambda>x. bindE (rd h b 0 0) (\<lambda>y. wr h c 0 0 (x * y)))
     else if tmod sz 2 \<noteq> 0 then Multiplication a b c sz h
     else if level > 1 then Multiplication a b c sz h
     else
      (case quadrants h a (tdiv sz 2) of Inl e \<Rightarrow> Inl e | Inr qa \<Rightarrow>
      (case quadrants h b (tdiv sz 2) of Inl e \<Rightarrow> Inl e | Inr qb \<Rightarrow>
      (case quadrants h c (tdiv sz 2) of Inl e \<Rightarrow> Inl e | Inr qc \<Rightarrow>
      (case new_temps 10 (tdiv sz 2) h of Inl e \<Rightarrow> Inl e | Inr (s, h1) \<Rightarrow>
      (case new_temps 7 (tdiv sz 2) h1 of Inl e \<Rightarrow> Inl e | Inr (p, h2) \<Rightarrow>
      (case compute_s qa qb s (tdiv sz 2) h2 of Inl e \<Rightarrow> Inl e | Inr h3 \<Rightarrow>
      (case qa of (a11, a12, a21, a22) \<Rightarrow> case qb of (b11, b12, b21, b22) \<Rightarrow>
      (case P_Strassen a11 (s ! 0) (p ! 0) (tdiv sz 2) (level + 1) h3 of Inl e \<Rightarrow> Inl e | Inr h4 \<Rightarrow>
      (case P_Strassen (s ! 1) b22 (p ! 1) (tdiv sz 2) (level + 1) h4 of Inl e \<Rightarrow> Inl e | Inr h5 \<Rightarrow>
      (case P_Strassen (s ! 2) b11 (p ! 2) (tdiv sz 2) (level + 1) h5 of Inl e \<Rightarrow> Inl e | Inr h6 \<Rightarrow>
      (case P_Strassen a22 (s ! 3) (p ! 3) (tdiv sz 2) (level + 1) h6 of Inl e \<Rightarrow> Inl e | Inr h7 \<Rightarrow>
      (case P_Strassen (s ! 4) (s ! 5) (p ! 4) (tdiv sz 2) (level + 1) h7 of Inl e \<Rightarrow> Inl e | Inr h8 \<Rightarrow>
      (case P_Strassen (s ! 6) (s ! 7) (p ! 5) (tdiv sz 2) (level + 1) h8 of Inl e \<Rightarrow> Inl e | Inr h9 \<Rightarrow>
      (case P_Strassen (s ! 8) (s ! 9) (p ! 6) (tdiv sz 2) (level + 1) h9 of Inl e \<Rightarrow> Inl e | Inr h10 \<Rightarrow>
      (case combine qc p (tdiv sz 2) h10 of Inl e \<Rightarrow> Inl e | Inr h11 \<Rightarrow>
       Inr (take (length h) h11)))))))))))))))))"
  by pat_completeness auto
termination
  by (relation "measure (\<lambda>(a, b, c, sz, level, h). nat (2 - level))") auto

text \<open>
  The arguments \<open>(size, level)\<close> of the recursive calls that one call makes itself:
  none on the three early returns (lines 158-171), seven otherwise (lines 281-293).
\<close>

definition P_Strassen_calls :: "int \<Rightarrow> int \<Rightarrow> (int \<times> int) list" where
  "P_Strassen_calls sz level =
    (if sz = 1 then []
     else if tmod sz 2 \<noteq> 0 then []
     else if level > 1 then []
     else replicate 7 (tdiv sz 2, level + 1))"

text \<open>The defining equations of the two recursive functions are unfolded by hand.\<close>

declare for_loop.simps [simp del]

declare P_Strassen.simps [simp del]

section \<open>Invariants of the data model\<close>

text \<open>
  What the constructor of Matrix establishes for non-negative dimensions.
\<close>

definition wf_Matrix :: "'a Matrix \<Rightarrow> bool" where
  "wf_Matrix m = (0 \<le> rows m \<and> 0 \<le> cols m \<and> length (data m) = nat (rows m * cols m))"

definition wf_heap :: "'a heap \<Rightarrow> bool" where
  "wf_heap h = list_all wf_Matrix h"

text \<open>The extent of a surface: \<^verbatim>\<open>rows\<close>, \<^verbatim>\<open>cols\<close> of a Matrix, \<^verbatim>\<open>maxRows\<close>, \<^verbatim>\<open>maxCols\<close> of a View.\<close>

fun extRows :: "'a heap \<Rightarrow> Viewable \<Rightarrow> int" where
  "extRows h (MatrixAt p) = rows (h ! p)"
| "extRows h (View b r c n m) = n"

fun extCols :: "'a heap \<Rightarrow> Viewable \<Rightarrow> int" where
  "extCols h (MatrixAt p) = cols (h ! p)"
| "extCols h (View b r c n m) = m"

text \<open>
  The invariant of View: a valid surface is a live Matrix, or a view whose offsets are
  not negative and whose window lies inside the extent of the surface it borrows,
  itself valid. It is what the check of \<^verbatim>\<open>makeView\<close> tests when its sums do not
  overflow.
\<close>

fun valid :: "'a heap \<Rightarrow> Viewable \<Rightarrow> bool" where
  "valid h (MatrixAt p) = (p < length h)"
| "valid h (View b r c n m) =
     (valid h b \<and> 0 \<le> r \<and> r + n \<le> extRows h b \<and> 0 \<le> c \<and> c + m \<le> extCols h b)"

text \<open>The Matrix a surface is a window of, and the window's origin in it.\<close>

fun baseAddr :: "Viewable \<Rightarrow> nat" where
  "baseAddr (MatrixAt p) = p"
| "baseAddr (View b r c n m) = baseAddr b"

fun row0 :: "Viewable \<Rightarrow> int" where
  "row0 (MatrixAt p) = 0"
| "row0 (View b r c n m) = row0 b + r"

fun col0 :: "Viewable \<Rightarrow> int" where
  "col0 (MatrixAt p) = 0"
| "col0 (View b r c n m) = col0 b + c"

text \<open>Element \<open>(r, c)\<close> of the Matrix at address \<open>p\<close>: \<^verbatim>\<open>data[row*cols + col]\<close>.\<close>

definition cell :: "'a heap \<Rightarrow> nat \<Rightarrow> int \<Rightarrow> int \<Rightarrow> 'a" where
  "cell h p r c = data (h ! p) ! nat (r * cols (h ! p) + c)"

definition poke :: "'a heap \<Rightarrow> nat \<Rightarrow> int \<Rightarrow> int \<Rightarrow> 'a \<Rightarrow> 'a heap" where
  "poke h p r c x = store h (p, nat (r * cols (h ! p) + c)) x"

definition inb :: "'a heap \<Rightarrow> nat \<Rightarrow> int \<Rightarrow> int \<Rightarrow> bool" where
  "inb h p r c = (p < length h \<and> 0 \<le> r \<and> r < rows (h ! p) \<and> 0 \<le> c \<and> c < cols (h ! p))"

text \<open>The element a valid view shows at \<open>(i, j)\<close>.\<close>

definition rdv :: "'a heap \<Rightarrow> Viewable \<Rightarrow> int \<Rightarrow> int \<Rightarrow> 'a" where
  "rdv h v i j = cell h (baseAddr v) (i + row0 v) (j + col0 v)"

text \<open>
  For the proofs: the heap \<open>h\<close> in which the elements \<open>(r, c)\<close> with \<open>W r c\<close> of the Matrix at
  \<open>p\<close> hold \<open>F r c\<close>, and everything else is as in \<open>h\<close>.
\<close>

definition fillM :: "'a Matrix \<Rightarrow> (int \<Rightarrow> int \<Rightarrow> bool) \<Rightarrow> (int \<Rightarrow> int \<Rightarrow> 'a) \<Rightarrow> 'a Matrix" where
  "fillM m W F =
     m\<lparr>data := map (\<lambda>k. if W (int k div cols m) (int k mod cols m)
                          then F (int k div cols m) (int k mod cols m)
                          else data m ! k)
                     [0..<length (data m)]\<rparr>"

definition fill :: "'a heap \<Rightarrow> nat \<Rightarrow> (int \<Rightarrow> int \<Rightarrow> bool) \<Rightarrow> (int \<Rightarrow> int \<Rightarrow> 'a) \<Rightarrow> 'a heap" where
  "fill h p W F = h[p := fillM (h ! p) W F]"

text \<open>
  For the statements: the matrix product of two functions of indices, windows of the same
  Matrix that share no element, and the \<open>n\<close> by \<open>n\<close> window of a view in the coordinates of
  its Matrix.
\<close>

definition matprod :: "(int \<Rightarrow> int \<Rightarrow> 'a::semiring_0) \<Rightarrow> (int \<Rightarrow> int \<Rightarrow> 'a) \<Rightarrow> int \<Rightarrow> int \<Rightarrow> int \<Rightarrow> 'a" where
  "matprod A B n i j = (\<Sum>k \<in> {0..<n}. A i k * B k j)"

definition separate :: "Viewable \<Rightarrow> Viewable \<Rightarrow> int \<Rightarrow> bool" where
  "separate u v n =
     (baseAddr u \<noteq> baseAddr v \<or> row0 u + n \<le> row0 v \<or> row0 v + n \<le> row0 u
      \<or> col0 u + n \<le> col0 v \<or> col0 v + n \<le> col0 u)"

definition window :: "Viewable \<Rightarrow> int \<Rightarrow> int \<Rightarrow> int \<Rightarrow> bool" where
  "window v n r c = (row0 v \<le> r \<and> r < row0 v + n \<and> col0 v \<le> c \<and> c < col0 v + n)"

text \<open>
  For the proof of the recursive case: the Matrix with given contents, the heap \<open>h\<close>
  followed by the seventeen temporaries with contents \<open>G 0\<close>, ..., \<open>G 16\<close>, and a view
  that is valid, large enough and shows the contents \<open>M\<close>.
\<close>

definition mat :: "int \<Rightarrow> (int \<Rightarrow> int \<Rightarrow> 'a) \<Rightarrow> 'a Matrix" where
  "mat n F = \<lparr>rows = n, cols = n, data = map (\<lambda>k. F (int k div n) (int k mod n)) [0..<nat (n * n)]\<rparr>"

definition heapT :: "'a heap \<Rightarrow> int \<Rightarrow> (nat \<Rightarrow> int \<Rightarrow> int \<Rightarrow> 'a) \<Rightarrow> 'a heap" where
  "heapT h n G = h @ map (\<lambda>k. mat n (G k)) [0..<17]"

definition holds :: "'a heap \<Rightarrow> Viewable \<Rightarrow> int \<Rightarrow> (int \<Rightarrow> int \<Rightarrow> 'a) \<Rightarrow> bool" where
  "holds h v n M =
     (valid h v \<and> n \<le> extRows h v \<and> n \<le> extCols h v
      \<and> (\<forall>i j. 0 \<le> i \<and> i < n \<and> 0 \<le> j \<and> j < n \<longrightarrow> rdv h v i j = M i j))"

text \<open>
  The four quadrant views that \<open>quadrants\<close> builds on a view \<open>v\<close> with half size \<open>n\<close>
  (\<open>v.makeView(0, 0, n, n)\<close>, \<open>v.makeView(0, n, n, n)\<close>, \<open>v.makeView(n, 0, n, n)\<close>,
  \<open>v.makeView(n, n, n, n)\<close>), when no \<open>makeView\<close> throws.
\<close>

definition q11 :: "Viewable \<Rightarrow> int \<Rightarrow> Viewable" where
  "q11 v n = View v 0 0 n n"

definition q12 :: "Viewable \<Rightarrow> int \<Rightarrow> Viewable" where
  "q12 v n = View v 0 n n n"

definition q21 :: "Viewable \<Rightarrow> int \<Rightarrow> Viewable" where
  "q21 v n = View v n 0 n n"

definition q22 :: "Viewable \<Rightarrow> int \<Rightarrow> Viewable" where
  "q22 v n = View v n n n n"

text \<open>
  Two heaps with the same objects of the same dimensions; and the frame of a call with
  output view \<open>c\<close>: the same objects and dimensions, and every element in bounds
  that is not in the \<open>sz\<close> by \<open>sz\<close> window of \<open>c\<close> unchanged.
\<close>

definition same_dims :: "'a heap \<Rightarrow> 'a heap \<Rightarrow> bool" where
  "same_dims H h = (length H = length h
     \<and> (\<forall>q. rows (H ! q) = rows (h ! q) \<and> cols (H ! q) = cols (h ! q)))"

definition frame :: "'a heap \<Rightarrow> 'a heap \<Rightarrow> Viewable \<Rightarrow> int \<Rightarrow> bool" where
  "frame h h' c sz = (same_dims h' h
     \<and> (\<forall>q r c'. inb h q r c' \<and> \<not> (q = baseAddr c \<and> window c sz r c')
           \<longrightarrow> cell h' q r c' = cell h q r c'))"

section \<open>Concrete inputs\<close>

text \<open>Small heaps and views, for the instances of the theorems below.\<close>

definition M22 :: "int Matrix" where
  "M22 = \<lparr>rows = 2, cols = 2, data = [1, 2, 3, 4]\<rparr>"

definition H3 :: "int heap" where
  "H3 = [\<lparr>rows = 3, cols = 3, data = [1, 0, 0, 0, 1, 0, 0, 0, 1]\<rparr>,
         \<lparr>rows = 3, cols = 3, data = [1, 2, 3, 4, 5, 6, 7, 8, 9]\<rparr>,
         \<lparr>rows = 3, cols = 3, data = [0, 0, 0, 0, 0, 0, 0, 0, 0]\<rparr>]"

definition vw :: "nat \<Rightarrow> int \<Rightarrow> Viewable" where
  "vw p n = View (MatrixAt p) 0 0 n n"

definition H1 :: "int heap" where
  "H1 = [\<lparr>rows = 1, cols = 1, data = [2]\<rparr>, \<lparr>rows = 1, cols = 1, data = [3]\<rparr>]"

definition H0 :: "int heap" where
  "H0 = [\<lparr>rows = 0, cols = 0, data = []\<rparr>]"

definition HA :: "int heap" where
  "HA = [\<lparr>rows = 2, cols = 2, data = [1, 1, 1, 1]\<rparr>, \<lparr>rows = 2, cols = 2, data = [1, 1, 1, 1]\<rparr>]"

definition H2 :: "int heap" where
  "H2 = [\<lparr>rows = 2, cols = 2, data = [1, 2, 3, 4]\<rparr>, \<lparr>rows = 2, cols = 2, data = [5, 6, 7, 8]\<rparr>,
         \<lparr>rows = 2, cols = 2, data = [0, 0, 0, 0]\<rparr>]"

text \<open>The heap \<open>H2\<close> after its third matrix has received the product of the first two.\<close>

definition H2_product :: "int heap" where
  "H2_product = [\<lparr>rows = 2, cols = 2, data = [1, 2, 3, 4]\<rparr>, \<lparr>rows = 2, cols = 2, data = [5, 6, 7, 8]\<rparr>,
         \<lparr>rows = 2, cols = 2, data = [19, 22, 43, 50]\<rparr>]"

text \<open>
  The heap \<open>H2\<close> followed by the seventeen temporaries of the call of size 2: the ten
  sums and differences, and the first \<open>k\<close> of the seven products.
\<close>

definition H2_tmp :: "nat \<Rightarrow> int heap" where
  "H2_tmp k = H2 @ map (\<lambda>x. \<lparr>rows = 1, cols = 1, data = [x]\<rparr>)
       ([- 2, 3, 7, 2, 5, 13, - 2, 15, - 2, 11] @ take k [- 2, 24, 35, 8, 65, - 30, - 22]
        @ replicate (7 - k) 0)"

section \<open>Basic facts\<close>

lemma bindE_Inr [simp]: "bindE (Inr x) f = f x"
  by (simp add: bindE_def)

lemma bindE_Inl [simp]: "bindE (Inl e) f = Inl e"
  by (simp add: bindE_def)

lemma wrap32_id: "- 2147483648 \<le> x \<Longrightarrow> x \<le> 2147483647 \<Longrightarrow> wrap32 x = x"
  by (simp add: wrap32_def)

lemma wrap32_le: "- 2147483648 \<le> x \<Longrightarrow> wrap32 x \<le> x"
proof -
  assume "- 2147483648 \<le> x"
  then have "(x + 2147483648) mod 4294967296 \<le> x + 2147483648"
    by (intro zmod_le_nonneg_dividend) simp
  then show ?thesis by (simp add: wrap32_def)
qed

lemma makeView_ext:
  "makeView h v r c n m =
     (if r < 0 \<or> wrap32 (r + n) > extRows h v \<or> c < 0 \<or> wrap32 (c + m) > extCols h v
      then Inl (IllegalViewSize n m) else Inr (View v r c n m))"
  by (cases v) simp_all

lemma makeView_inside:
  assumes "0 \<le> r" "0 \<le> c" "- 2147483648 \<le> r + n" "- 2147483648 \<le> c + m"
    and "r + n \<le> extRows h v" "c + m \<le> extCols h v"
  shows "makeView h v r c n m = Inr (View v r c n m)"
  using assms wrap32_le [of "r + n"] wrap32_le [of "c + m"] by (simp add: makeView_ext)

lemma get_ext_out:
  "row < 0 \<or> row \<ge> extRows h v \<or> col < 0 \<or> col \<ge> extCols h v
   \<Longrightarrow> get h v row col = Inl (BadArrayAccess row col)"
  by (cases v) auto

lemma index_bound:
  fixes r c R C :: int
  assumes "0 \<le> r" "r < R" "0 \<le> c" "c < C"
  shows "r * C + c < R * C"
proof -
  have "r * C + c < r * C + C" using assms by simp
  also have "\<dots> = (r + 1) * C" by (simp add: algebra_simps)
  also have "\<dots> \<le> R * C" using assms by (intro mult_right_mono) auto
  finally show ?thesis .
qed

lemma index_div:
  fixes r c C :: int
  shows "0 \<le> c \<Longrightarrow> c < C \<Longrightarrow> (r * C + c) div C = r"
  by simp

lemma index_mod:
  fixes r c C :: int
  shows "0 \<le> c \<Longrightarrow> c < C \<Longrightarrow> (r * C + c) mod C = c"
  by simp

lemma index_inj:
  fixes r c r' c' C :: int
  assumes "0 \<le> c" "c < C" "0 \<le> c'" "c' < C" "r * C + c = r' * C + c'"
  shows "r = r' \<and> c = c'"
proof -
  have "(r * C + c) div C = r" "(r' * C + c') div C = r'"
    using assms(1-4) by (simp_all add: index_div)
  then have "r = r'" using assms(5) by simp
  then show ?thesis using assms(5) by simp
qed

lemma get_valid:
  "valid h v \<Longrightarrow> 0 \<le> i \<Longrightarrow> i < extRows h v \<Longrightarrow> 0 \<le> j \<Longrightarrow> j < extCols h v
   \<Longrightarrow> get h v i j = Inr (baseAddr v, nat ((i + row0 v) * cols (h ! baseAddr v) + (j + col0 v)))
       \<and> inb h (baseAddr v) (i + row0 v) (j + col0 v)"
proof (induction v arbitrary: i j)
  case (MatrixAt p)
  then show ?case by (simp add: inb_def)
next
  case (View b r c n m)
  from View.prems have ok: "valid h b" "0 \<le> r" "r + n \<le> extRows h b" "0 \<le> c" "c + m \<le> extCols h b"
    by (auto simp: makeView_ext split: if_splits)
  have "get h b (i + r) (j + c) =
          Inr (baseAddr b, nat ((i + r + row0 b) * cols (h ! baseAddr b) + (j + c + col0 b)))
        \<and> inb h (baseAddr b) (i + r + row0 b) (j + c + col0 b)"
    using View.prems ok by (intro View.IH) auto
  then show ?case using View.prems by (simp add: add.commute add.left_commute)
qed

section \<open>Heaps with an overwritten region\<close>

lemma fillM_simps [simp]:
  "rows (fillM m W F) = rows m" "cols (fillM m W F) = cols m"
  "length (data (fillM m W F)) = length (data m)"
  by (simp_all add: fillM_def)

lemma data_fillM:
  "k < length (data m) \<Longrightarrow>
   data (fillM m W F) ! k =
     (if W (int k div cols m) (int k mod cols m) then F (int k div cols m) (int k mod cols m)
      else data m ! k)"
  by (simp add: fillM_def)

lemma fillM_nothing [simp]: "fillM m (\<lambda>r c. False) F = m"
  by (simp add: fillM_def map_nth)

lemma fillM_fillM:
  "fillM (fillM m W F) W' F' =
   fillM m (\<lambda>r c. W r c \<or> W' r c) (\<lambda>r c. if W' r c then F' r c else F r c)"
proof -
  have "data (fillM (fillM m W F) W' F') =
        data (fillM m (\<lambda>r c. W r c \<or> W' r c) (\<lambda>r c. if W' r c then F' r c else F r c))"
    by (rule nth_equalityI) (simp_all add: data_fillM)
  then show ?thesis by (simp add: fillM_def)
qed

lemma length_fill [simp]: "length (fill h p W F) = length h"
  by (simp add: fill_def)

lemma fill_nth:
  "fill h p W F ! q = (if q = p \<and> p < length h then fillM (h ! p) W F else h ! q)"
  by (cases "p < length h") (auto simp: fill_def nth_list_update list_update_beyond)

lemma rows_fill [simp]: "rows (fill h p W F ! q) = rows (h ! q)"
  by (simp add: fill_nth)

lemma cols_fill [simp]: "cols (fill h p W F ! q) = cols (h ! q)"
  by (simp add: fill_nth)

lemma len_data_fill [simp]: "length (data (fill h p W F ! q)) = length (data (h ! q))"
  by (simp add: fill_nth)

lemma wf_heap_nth: "wf_heap h \<longleftrightarrow> (\<forall>q < length h. wf_Matrix (h ! q))"
  by (simp add: wf_heap_def list_all_length)

lemma wf_heap_fill [simp]: "wf_heap (fill h p W F) = wf_heap h"
  by (simp add: wf_heap_nth wf_Matrix_def)

lemma inb_fill [simp]: "inb (fill h p W F) q r c = inb h q r c"
  by (simp add: inb_def)

lemma get_fill [simp]: "get (fill h p W F) v i j = get h v i j"
  by (induction v arbitrary: i j) simp_all

lemma extRows_fill [simp]: "extRows (fill h p W F) v = extRows h v"
  by (cases v) simp_all

lemma extCols_fill [simp]: "extCols (fill h p W F) v = extCols h v"
  by (cases v) simp_all

lemma makeView_fill [simp]: "makeView (fill h p W F) v r c n m = makeView h v r c n m"
  by (simp add: makeView_ext)

lemma valid_fill [simp]: "valid (fill h p W F) v = valid h v"
  by (induction v) simp_all

lemma fill_nothing [simp]: "fill h p (\<lambda>r c. False) F = h"
  by (simp add: fill_def)

lemma fill_fill:
  "fill (fill h p W F) p W' F' =
   fill h p (\<lambda>r c. W r c \<or> W' r c) (\<lambda>r c. if W' r c then F' r c else F r c)"
  by (cases "p < length h") (simp_all add: fill_def fillM_fillM list_update_beyond)

lemma inb_index:
  assumes "wf_heap h" "inb h p r c"
  shows "nat (r * cols (h ! p) + c) < length (data (h ! p))"
    and "int (nat (r * cols (h ! p) + c)) div cols (h ! p) = r"
    and "int (nat (r * cols (h ! p) + c)) mod cols (h ! p) = c"
proof -
  from assms have b: "0 \<le> r" "r < rows (h ! p)" "0 \<le> c" "c < cols (h ! p)"
    and len: "length (data (h ! p)) = nat (rows (h ! p) * cols (h ! p))"
    by (auto simp: inb_def wf_heap_nth wf_Matrix_def)
  have nn: "0 \<le> r * cols (h ! p) + c" using b by simp
  show "nat (r * cols (h ! p) + c) < length (data (h ! p))"
    using index_bound [OF b] nn len by simp
  show "int (nat (r * cols (h ! p) + c)) div cols (h ! p) = r"
    using nn b by (simp add: index_div)
  show "int (nat (r * cols (h ! p) + c)) mod cols (h ! p) = c"
    using nn b by (simp add: index_mod)
qed

lemma index_inb:
  assumes "wf_heap h" "p < length h" "k < length (data (h ! p))"
  shows "inb h p (int k div cols (h ! p)) (int k mod cols (h ! p))"
    and "nat (int k div cols (h ! p) * cols (h ! p) + int k mod cols (h ! p)) = k"
proof -
  let ?C = "cols (h ! p)" and ?R = "rows (h ! p)"
  from assms have w: "0 \<le> ?R" "0 \<le> ?C" "length (data (h ! p)) = nat (?R * ?C)"
    by (auto simp: wf_heap_nth wf_Matrix_def)
  have kb: "int k < ?R * ?C" using assms(3) w by linarith
  have Cpos: "0 < ?C" using kb w by (cases "?C = 0") auto
  have "int k div ?C < ?R"
  proof (rule ccontr)
    assume "\<not> int k div ?C < ?R"
    then have le: "?R * ?C \<le> int k div ?C * ?C"
      using Cpos by (intro mult_right_mono) auto
    have m: "0 \<le> int k mod ?C" using Cpos by simp
    have e: "int k = int k div ?C * ?C + int k mod ?C" by simp
    from le m e kb show False by linarith
  qed
  moreover have "0 \<le> int k div ?C" using Cpos by (simp add: pos_imp_zdiv_nonneg_iff)
  ultimately show "inb h p (int k div ?C) (int k mod ?C)"
    using Cpos assms(2) by (simp add: inb_def)
  show "nat (int k div ?C * ?C + int k mod ?C) = k" by simp
qed

lemma cell_fill:
  assumes "wf_heap h" "inb h q r c"
  shows "cell (fill h p W F) q r c = (if q = p \<and> W r c then F r c else cell h q r c)"
proof (cases "q = p")
  case True
  with assms have "p < length h" by (simp add: inb_def)
  then show ?thesis
    using inb_index [OF assms] True by (simp add: cell_def fill_nth data_fillM)
next
  case False
  then show ?thesis by (simp add: cell_def fill_nth)
qed

lemma poke_as_fill:
  assumes "wf_heap h" "inb h p r c"
  shows "poke h p r c x = fill h p (\<lambda>r' c'. r' = r \<and> c' = c) (\<lambda>r' c'. x)"
proof -
  let ?m = "h ! p" and ?k = "nat (r * cols (h ! p) + c)"
  from assms have p: "p < length h" by (simp add: inb_def)
  have "(data ?m)[?k := x] = data (fillM ?m (\<lambda>r' c'. r' = r \<and> c' = c) (\<lambda>r' c'. x))"
  proof (rule nth_equalityI)
    show "length ((data ?m)[?k := x]) = length (data (fillM ?m (\<lambda>r' c'. r' = r \<and> c' = c) (\<lambda>r' c'. x)))"
      by simp
  next
    fix k assume "k < length ((data ?m)[?k := x])"
    then have k: "k < length (data ?m)" by simp
    have "(int k div cols ?m = r \<and> int k mod cols ?m = c) \<longleftrightarrow> k = ?k"
      using inb_index(2,3) [OF assms] index_inb(2) [OF assms(1) p k] by metis
    then show "(data ?m)[?k := x] ! k = data (fillM ?m (\<lambda>r' c'. r' = r \<and> c' = c) (\<lambda>r' c'. x)) ! k"
      using k by (auto simp: nth_list_update data_fillM)
  qed
  then show ?thesis by (simp add: poke_def store_def fill_def fillM_def)
qed

lemma fill_cong:
  assumes "wf_heap h"
    and "\<And>r c. inb h p r c \<Longrightarrow> W r c = W' r c"
    and "\<And>r c. inb h p r c \<Longrightarrow> W r c \<Longrightarrow> F r c = F' r c"
  shows "fill h p W F = fill h p W' F'"
proof (cases "p < length h")
  case True
  have "data (fillM (h ! p) W F) = data (fillM (h ! p) W' F')"
  proof (rule nth_equalityI)
    show "length (data (fillM (h ! p) W F)) = length (data (fillM (h ! p) W' F'))" by simp
  next
    fix k assume "k < length (data (fillM (h ! p) W F))"
    then have k: "k < length (data (h ! p))" by simp
    show "data (fillM (h ! p) W F) ! k = data (fillM (h ! p) W' F') ! k"
      using index_inb(1) [OF assms(1) True k] assms(2,3) k by (auto simp: data_fillM)
  qed
  then have "fillM (h ! p) W F = fillM (h ! p) W' F'" by (simp add: fillM_def)
  then show ?thesis by (simp add: fill_def)
next
  case False
  then show ?thesis by (simp add: fill_def list_update_beyond)
qed

lemma fill_append1: "p < length h \<Longrightarrow> fill (h @ ms) p W F = fill h p W F @ ms"
  by (simp add: fill_def list_update_append1 nth_append)

lemma take_fill_beyond: "n \<le> q \<Longrightarrow> take n (fill h q W F) = take n h"
  by (simp add: fill_def)


section \<open>Views\<close>

lemma rd_valid:
  "valid h v \<Longrightarrow> 0 \<le> i \<Longrightarrow> i < extRows h v \<Longrightarrow> 0 \<le> j \<Longrightarrow> j < extCols h v
   \<Longrightarrow> rd h v i j = Inr (rdv h v i j)"
  using get_valid [of h v i j] by (simp add: rd_def rdv_def cell_def load_def)

lemma wr_valid:
  "valid h v \<Longrightarrow> 0 \<le> i \<Longrightarrow> i < extRows h v \<Longrightarrow> 0 \<le> j \<Longrightarrow> j < extCols h v
   \<Longrightarrow> wr h v i j x = Inr (poke h (baseAddr v) (i + row0 v) (j + col0 v) x)"
  using get_valid [of h v i j] by (simp add: wr_def poke_def)

lemma inb_valid:
  "valid h v \<Longrightarrow> 0 \<le> i \<Longrightarrow> i < extRows h v \<Longrightarrow> 0 \<le> j \<Longrightarrow> j < extCols h v
   \<Longrightarrow> inb h (baseAddr v) (i + row0 v) (j + col0 v)"
  using get_valid [of h v i j] by simp






section \<open>Early returns, assignment of views, termination\<close>

lemma tmod_2: "tmod sz 2 \<noteq> 0 \<longleftrightarrow> \<not> 2 dvd sz"
proof -
  consider "sz < 0" | "sz = 0" | "0 < sz" by linarith
  then show ?thesis
  proof cases
    case 1
    then have "tmod sz 2 = sz + 2 * ((- sz) div 2)"
      by (simp add: tmod_def tdiv_def)
    then show ?thesis by presburger
  next
    case 2
    then show ?thesis by (simp add: tmod_def tdiv_def)
  next
    case 3
    then have "tmod sz 2 = sz - 2 * (sz div 2)"
      by (simp add: tmod_def tdiv_def)
    then show ?thesis by presburger
  qed
qed

lemma tdiv_2: "2 dvd sz \<Longrightarrow> tdiv sz 2 = sz div 2"
  by (auto simp: tdiv_def sgn_if abs_if elim!: dvdE)

text \<open>
  C4. With \<open>size > 1\<close>, a call whose size is not divisible by 2 or whose level exceeds 1
  is the call of Multiplication on the same arguments; with \<open>size = 1\<close> the call
  reads \<open>a(0,0)\<close> and \<open>b(0,0)\<close> and writes their product to \<open>c(0,0)\<close>.
\<close>

theorem P_Strassen_fallbacks:
  "(1 < sz \<and> (\<not> 2 dvd sz \<or> 1 < level) \<longrightarrow>
      P_Strassen a b c sz level h = Multiplication a b c sz h)
   \<and> P_Strassen a b c 1 level h =
       bindE (rd h a 0 0) (\<lambda>x. bindE (rd h b 0 0) (\<lambda>y. wr h c 0 0 (x * y)))
   \<and> (\<forall>x y. rd h a 0 0 = Inr x \<and> rd h b 0 0 = Inr y \<longrightarrow>
        P_Strassen a b c 1 level h = wr h c 0 0 (x * y))"
  by (auto simp: tmod_2 P_Strassen.simps)

lemma Mult3: "Multiplication (vw 0 3) (vw 1 3) (vw 2 3) 3 H3 =
    Inr [\<lparr>rows = 3, cols = 3, data = [1, 0, 0, 0, 1, 0, 0, 0, 1]\<rparr>,
         \<lparr>rows = 3, cols = 3, data = [1, 2, 3, 4, 5, 6, 7, 8, 9]\<rparr>,
         \<lparr>rows = 3, cols = 3, data = [1, 2, 3, 4, 5, 6, 7, 8, 9]\<rparr>]"
  by code_simp

theorem P_Strassen_fallbacks_witness:
  "(1::int) < 3 \<and> \<not> 2 dvd (3::int)
   \<and> P_Strassen (vw 0 3) (vw 1 3) (vw 2 3) 3 0 H3 =
       Inr [\<lparr>rows = 3, cols = 3, data = [1, 0, 0, 0, 1, 0, 0, 0, 1]\<rparr>,
            \<lparr>rows = 3, cols = 3, data = [1, 2, 3, 4, 5, 6, 7, 8, 9]\<rparr>,
            \<lparr>rows = 3, cols = 3, data = [1, 2, 3, 4, 5, 6, 7, 8, 9]\<rparr>]
   \<and> rd H3 (vw 0 3) 0 0 = Inr 1 \<and> rd H3 (vw 1 3) 0 0 = Inr 1
   \<and> P_Strassen (vw 0 3) (vw 1 3) (vw 2 3) 1 5 H3 = wr H3 (vw 2 3) 0 0 (1 * 1)"
proof -
  have o: "(1::int) < 3 \<and> (\<not> 2 dvd (3::int) \<or> (1::int) < 0)" by simp
  have r: "rd H3 (vw 0 3) 0 0 = Inr 1 \<and> rd H3 (vw 1 3) 0 0 = Inr 1"
    by (simp add: rd_def vw_def H3_def load_def)
  note t = P_Strassen_fallbacks [where sz = 3 and level = 0 and a = "vw 0 3" and b = "vw 1 3"
      and c = "vw 2 3" and h = H3]
  from t o have "P_Strassen (vw 0 3) (vw 1 3) (vw 2 3) 3 0 H3 = Multiplication (vw 0 3) (vw 1 3) (vw 2 3) 3 H3"
    by blast
  moreover from P_Strassen_fallbacks [where a = "vw 0 3" and b = "vw 1 3" and c = "vw 2 3"
      and level = 5 and h = H3] r
  have "P_Strassen (vw 0 3) (vw 1 3) (vw 2 3) 1 5 H3 = wr H3 (vw 2 3) 0 0 (1 * 1)"
    by blast
  ultimately show ?thesis using r Mult3 by simp
qed

lemma View_copy_same: "View_copy (View b r c n m) = View b r c n m"
  by (simp add: View_copy_def)

text \<open>
  C6. The copy constructor yields the same window. The assignment does not: \<open>w = v\<close>
  leaves \<open>w\<close> on its own base with the offsets and extents of \<open>v\<close>. Here \<open>w\<close> is a view
  of the Matrix at address 0 and \<open>v\<close> of the one at address 1; after the assignment
  \<open>w(0,0)\<close> is still the element 2 of the first Matrix, not the element 3 that \<open>v(0,0)\<close> is.
\<close>

theorem View_assign_keeps_base:
  "View_assign (vw 0 1) (vw 1 1) = vw 0 1
   \<and> rd H1 (vw 1 1) 0 0 = Inr 3
   \<and> rd H1 (View_copy (vw 1 1)) 0 0 = Inr 3
   \<and> rd H1 (View_assign (vw 0 1) (vw 1 1)) 0 0 = Inr 2"
  by (simp add: View_assign_def View_copy_def vw_def rd_def load_def H1_def)

lemma rel_calls:
  assumes "P_Strassen_rel (a', b', c', sz', level', h' :: ('a::ring) heap) (a, b, c, sz, level, h)"
  shows "(sz', level') \<in> set (P_Strassen_calls sz level)"
  using assms by (cases rule: P_Strassen_rel.cases) (auto simp: P_Strassen_calls_def)

lemma tdiv_2_less: "2 \<le> sz \<Longrightarrow> tdiv sz 2 < sz"
  by (simp add: tdiv_def sgn_if)

text \<open>
  C9 (as amended). For every size and level the recursion of \<open>P_Strassen\<close> terminates:
  every argument is in the accessible part of the call relation of the function. Each
  recursive call is made only at \<open>level \<le> 1\<close> and at \<open>level + 1\<close>, so \<open>2 - level\<close>
  decreases; its size is \<open>size / 2\<close>, which is less than \<open>size\<close> when \<open>size \<ge> 2\<close>.
\<close>

theorem P_Strassen_terminates:
  fixes h :: "('a::ring) heap"
  shows "P_Strassen_dom (a, b, c, sz, level, h)
       \<and> (\<forall>a' b' c' sz' level' (h' :: 'a heap).
            P_Strassen_rel (a', b', c', sz', level', h') (a, b, c, sz, level, h) \<longrightarrow>
              (sz', level') \<in> set (P_Strassen_calls sz level))
       \<and> (\<forall>(sz', level') \<in> set (P_Strassen_calls sz level).
            level \<le> 1 \<and> level' = level + 1 \<and> nat (2 - level') < nat (2 - level)
            \<and> sz' = tdiv sz 2 \<and> (2 \<le> sz \<longrightarrow> sz' < sz))"
proof -
  have "All (P_Strassen_dom :: _ \<times> _ \<times> _ \<times> _ \<times> _ \<times> 'a heap \<Rightarrow> bool)"
    by (rule "P_Strassen.termination" [of "measure (\<lambda>(a, b, c, sz, level, h). nat (2 - level))"]) auto
  then have "P_Strassen_dom (a, b, c, sz, level, h)" by blast
  moreover have "\<forall>(sz', level') \<in> set (P_Strassen_calls sz level).
            level \<le> 1 \<and> level' = level + 1 \<and> nat (2 - level') < nat (2 - level)
            \<and> sz' = tdiv sz 2 \<and> (2 \<le> sz \<longrightarrow> sz' < sz)"
    by (auto simp: P_Strassen_calls_def tdiv_2_less)
  ultimately show ?thesis using rel_calls by blast
qed

lemma rel_size0:
  "\<exists>a' b' c' h'. P_Strassen_rel (a', b', c', 0, 1, h') (vw 0 0, vw 0 0, vw 0 0, 0, 0, H0)"
proof -
  have "\<exists>a' b' c' h'. P_Strassen_rel (a', b', c', tdiv 0 2, 0 + 1, h') (vw 0 0, vw 0 0, vw 0 0, 0, 0, H0)"
    apply (intro exI)
    apply (rule P_Strassen_rel.intros(1))
    apply (simp_all add: tdiv_def tmod_def quadrants_def wrap32_def vw_def H0_def compute_s_def for_ij_def
       for_loop.simps eval_nat_numeral new_temp_def Matrix_new_def View_copy_def)
    done
  then show ?thesis by (simp add: tdiv_def)
qed

lemma get_in_iff:
  assumes "valid h v"
  shows "(\<exists>l. get h v row col = Inr l)
     \<longleftrightarrow> (0 \<le> row \<and> row < extRows h v \<and> 0 \<le> col \<and> col < extCols h v)"
proof
  assume "\<exists>l. get h v row col = Inr l"
  then show "0 \<le> row \<and> row < extRows h v \<and> 0 \<le> col \<and> col < extCols h v"
    using get_ext_out [of row h v col] by fastforce
next
  assume "0 \<le> row \<and> row < extRows h v \<and> 0 \<le> col \<and> col < extCols h v"
  then show "\<exists>l. get h v row col = Inr l"
    using get_valid [OF assms, of row col] by blast
qed

text \<open>
  C7 (as amended). On a surface that satisfies the invariant of View, element access
  throws \<open>BadArrayAccess\<close> exactly when the row or the column is outside the extent of
  the surface. When the sums \<open>r + n\<close> and \<open>c + m\<close> are within the range of \<^verbatim>\<open>int\<close>,
  \<open>makeView\<close> throws \<open>IllegalViewSize\<close> exactly when \<open>r < 0\<close>, \<open>c < 0\<close>, \<open>r + n\<close> exceeds the
  rows or \<open>c + m\<close> exceeds the columns, and the view it returns otherwise satisfies the
  invariant; for \<open>n\<close> and \<open>m\<close> in the range of \<^verbatim>\<open>int\<close> a \<open>makeView\<close> that throws was asked
  for such a window. A read or write whose access throws yields the exception and no
  heap; \<open>makeView\<close> has no heap to return.
\<close>

theorem bounds_checks:
  assumes "valid h v"
  shows "(get h v row col = Inl (BadArrayAccess row col)
            \<longleftrightarrow> (row < 0 \<or> extRows h v \<le> row \<or> col < 0 \<or> extCols h v \<le> col))
       \<and> ((\<exists>e. get h v row col = Inl e)
            \<longleftrightarrow> (row < 0 \<or> extRows h v \<le> row \<or> col < 0 \<or> extCols h v \<le> col))
       \<and> (- 2147483648 \<le> r + n \<and> r + n \<le> 2147483647
          \<and> - 2147483648 \<le> c + m \<and> c + m \<le> 2147483647 \<longrightarrow>
            (makeView h v r c n m = Inl (IllegalViewSize n m)
              \<longleftrightarrow> (r < 0 \<or> c < 0 \<or> r + n > extRows h v \<or> c + m > extCols h v))
          \<and> ((\<exists>e. makeView h v r c n m = Inl e)
              \<longleftrightarrow> (r < 0 \<or> c < 0 \<or> r + n > extRows h v \<or> c + m > extCols h v))
          \<and> (\<forall>u. makeView h v r c n m = Inr u \<longrightarrow> u = View v r c n m \<and> valid h u))
       \<and> (- 2147483648 \<le> n \<and> - 2147483648 \<le> m \<and> (\<exists>e. makeView h v r c n m = Inl e) \<longrightarrow>
            r < 0 \<or> c < 0 \<or> r + n > extRows h v \<or> c + m > extCols h v)
       \<and> (\<forall>e. get h v row col = Inl e \<longrightarrow> rd h v row col = Inl e \<and> wr h v row col x = Inl e)"
proof -
  have in_ok: "\<exists>l. get h v row col = Inr l"
    if "\<not> (row < 0 \<or> extRows h v \<le> row \<or> col < 0 \<or> extCols h v \<le> col)"
    using that get_in_iff [OF assms, of row col] by auto
  have g1: "get h v row col = Inl (BadArrayAccess row col)
            \<longleftrightarrow> (row < 0 \<or> extRows h v \<le> row \<or> col < 0 \<or> extCols h v \<le> col)"
    using in_ok get_ext_out [of row h v col] by fastforce
  have g2: "(\<exists>e. get h v row col = Inl e)
            \<longleftrightarrow> (row < 0 \<or> extRows h v \<le> row \<or> col < 0 \<or> extCols h v \<le> col)"
    using in_ok get_ext_out [of row h v col] by fastforce
  have m: "(makeView h v r c n m = Inl (IllegalViewSize n m)
              \<longleftrightarrow> (r < 0 \<or> c < 0 \<or> r + n > extRows h v \<or> c + m > extCols h v))
          \<and> ((\<exists>e. makeView h v r c n m = Inl e)
              \<longleftrightarrow> (r < 0 \<or> c < 0 \<or> r + n > extRows h v \<or> c + m > extCols h v))
          \<and> (\<forall>u. makeView h v r c n m = Inr u \<longrightarrow> u = View v r c n m \<and> valid h u)"
    if "- 2147483648 \<le> r + n \<and> r + n \<le> 2147483647
          \<and> - 2147483648 \<le> c + m \<and> c + m \<le> 2147483647"
  proof -
    have w: "wrap32 (r + n) = r + n" "wrap32 (c + m) = c + m"
      using that by (simp_all add: wrap32_id)
    show ?thesis using assms by (auto simp: makeView_ext w)
  qed
  have s: "r < 0 \<or> c < 0 \<or> r + n > extRows h v \<or> c + m > extCols h v"
    if "- 2147483648 \<le> n \<and> - 2147483648 \<le> m \<and> (\<exists>e. makeView h v r c n m = Inl e)"
  proof (cases "r < 0 \<or> c < 0")
    case True
    then show ?thesis by blast
  next
    case False
    then have "wrap32 (r + n) \<le> r + n" "wrap32 (c + m) \<le> c + m"
      using that by (simp_all add: wrap32_le)
    then show ?thesis using that by (auto simp: makeView_ext split: if_splits)
  qed
  have w: "\<forall>e. get h v row col = Inl e \<longrightarrow> rd h v row col = Inl e \<and> wr h v row col x = Inl e"
    by (simp add: rd_def wr_def)
  from g1 g2 m s w show ?thesis by blast
qed

theorem bounds_checks_witness:
  "valid [M22] (View (MatrixAt 0) 1 0 1 2)
   \<and> get [M22] (View (MatrixAt 0) 1 0 1 2) 1 0 = Inl (BadArrayAccess 1 0)
   \<and> makeView [M22] (View (MatrixAt 0) 1 0 1 2) 0 1 1 2 = Inl (IllegalViewSize 1 2)
   \<and> wr [M22] (View (MatrixAt 0) 1 0 1 2) 1 0 (7::int) = Inl (BadArrayAccess 1 0)
   \<and> (\<exists>l. get [M22] (View (MatrixAt 0) 1 0 1 2) 0 1 = Inr l)
   \<and> makeView [M22] (View (MatrixAt 0) 1 0 1 2) 0 1 1 1 = Inr (View (View (MatrixAt 0) 1 0 1 2) 0 1 1 1)"
proof -
  have v: "valid [M22] (View (MatrixAt 0) 1 0 1 2)" by (simp add: M22_def)
  note t = bounds_checks [OF v]
  have 1: "get [M22] (View (MatrixAt 0) 1 0 1 2) 1 0 = Inl (BadArrayAccess 1 0)"
    using t [of 1 0] by simp
  have 2: "makeView [M22] (View (MatrixAt 0) 1 0 1 2) 0 1 1 2 = Inl (IllegalViewSize 1 2)"
    using t [of _ _ 0 1 1 2] by simp
  have 3: "wr [M22] (View (MatrixAt 0) 1 0 1 2) 1 0 (7::int) = Inl (BadArrayAccess 1 0)"
    using t [of 1 0 _ _ _ _ 7] 1 by blast
  have 4: "\<not> (\<exists>e. get [M22] (View (MatrixAt 0) 1 0 1 2) 0 1 = Inl e)"
    using t [of 0 1] by simp
  then have 5: "\<exists>l. get [M22] (View (MatrixAt 0) 1 0 1 2) 0 1 = Inr l"
    by (cases "get [M22] (View (MatrixAt 0) 1 0 1 2) 0 1") auto
  have 6: "\<not> (\<exists>e. makeView [M22] (View (MatrixAt 0) 1 0 1 2) 0 1 1 1 = Inl e)"
    using t [of _ _ 0 1 1 1] by simp
  have 7: "\<forall>u. makeView [M22] (View (MatrixAt 0) 1 0 1 2) 0 1 1 1 = Inr u
             \<longrightarrow> u = View (View (MatrixAt 0) 1 0 1 2) 0 1 1 1"
    using t [of _ _ 0 1 1 1] by simp
  from 6 7 have 8: "makeView [M22] (View (MatrixAt 0) 1 0 1 2) 0 1 1 1
                    = Inr (View (View (MatrixAt 0) 1 0 1 2) 0 1 1 1)"
    by (cases "makeView [M22] (View (MatrixAt 0) 1 0 1 2) 0 1 1 1") auto
  from v 1 2 3 5 8 show ?thesis by blast
qed

text \<open>
  Counterexample to C7 as stated: on a 2 by 2 Matrix, \<open>makeView(1, 0, INT_MAX, 1)\<close> asks
  for a window with \<open>r + rows > maxRows\<close>. The sum \<open>1 + INT_MAX\<close> overflows; its wrapped
  value \<open>INT_MIN\<close> is not above 2, so the check passes and a view is returned. The view
  breaks the invariant: index \<open>(5, 0)\<close> is within its extent, and the access throws.
\<close>

theorem makeView_overflow:
  "valid [M22] (MatrixAt 0) \<and> extRows [M22] (MatrixAt 0) = 2 \<and> extCols [M22] (MatrixAt 0) = 2
   \<and> 1 + 2147483647 > extRows [M22] (MatrixAt 0)
   \<and> wrap32 (1 + 2147483647) = - 2147483648
   \<and> makeView [M22] (MatrixAt 0) 1 0 2147483647 1 = Inr (View (MatrixAt 0) 1 0 2147483647 1)
   \<and> \<not> valid [M22] (View (MatrixAt 0) 1 0 2147483647 1)
   \<and> get [M22] (View (MatrixAt 0) 1 0 2147483647 1) 5 0 = Inl (BadArrayAccess 6 0)"
  by (simp add: M22_def wrap32_def)

text \<open>
  Counterexample to C9 as stated: size 0 is not handled without recursion. At level 0
  it is even and not 1, so the call makes seven recursive calls, of size \<open>0 / 2 = 0\<close>,
  which is not less than 0.
\<close>

theorem size0_recurses:
  "P_Strassen_calls 0 0 = replicate 7 (0, 1)
   \<and> (\<exists>a' b' c' h'. P_Strassen_rel (a', b', c', 0, 1, h') (vw 0 0, vw 0 0, vw 0 0, 0, 0, H0))
   \<and> \<not> (\<forall>sz level. 0 \<le> sz \<longrightarrow> (\<forall>(sz', level') \<in> set (P_Strassen_calls sz level). sz' < sz))"
proof -
  have c: "P_Strassen_calls 0 0 = replicate 7 (0, 1)"
    by (simp add: P_Strassen_calls_def tdiv_def tmod_def)
  have "\<not> (\<forall>(sz', level') \<in> set (P_Strassen_calls 0 0). sz' < 0)"
    by (simp add: c)
  then have "\<not> (\<forall>sz level. 0 \<le> sz \<longrightarrow> (\<forall>(sz', level') \<in> set (P_Strassen_calls sz level). sz' < sz))"
    by (metis order_refl)
  with c rel_size0 show ?thesis by blast
qed

theorem P_Strassen_terminates_witness:
  "P_Strassen_dom (vw 0 0, vw 0 0, vw 0 0, 0, 0, H0)
   \<and> (0, 1) \<in> set (P_Strassen_calls 0 0)
   \<and> P_Strassen_dom (vw 0 3, vw 1 3, vw 2 3, 2, 0, H3)
   \<and> (1, 1) \<in> set (P_Strassen_calls 2 0)
   \<and> nat (2 - 1) < nat (2 - 0) \<and> (1::int) < 2"
proof -
  note t0 = P_Strassen_terminates [of "vw 0 0" "vw 0 0" "vw 0 0" 0 0 H0]
  note t2 = P_Strassen_terminates [of "vw 0 3" "vw 1 3" "vw 2 3" 2 0 H3]
  from rel_size0 t0 have a: "(0, 1) \<in> set (P_Strassen_calls 0 0)" by blast
  have m: "(1, 1) \<in> set (P_Strassen_calls 2 0)"
    by (simp add: P_Strassen_calls_def tdiv_def tmod_def)
  with t2 have "nat (2 - 1) < nat (2 - 0) \<and> ((2::int) \<le> 2 \<longrightarrow> (1::int) < 2)" by fast
  with t0 t2 a m show ?thesis by simp
qed

section \<open>Loops over a window\<close>

lemma for_loop_done: "n \<le> i \<Longrightarrow> for_loop i n body s = Inr s"
  by (simp add: for_loop.simps)

lemma for_loop_steps:
  assumes "i0 \<le> n" and "\<And>i. i0 \<le> i \<Longrightarrow> i < n \<Longrightarrow> body i (st i) = Inr (st (i + 1))"
  shows "for_loop i0 n body (st i0) = Inr (st n)"
  using assms
proof (induction "nat (n - i0)" arbitrary: i0)
  case 0
  then have "i0 = n" by simp
  then show ?case by (simp add: for_loop_done)
next
  case (Suc d)
  then have lt: "i0 < n" by linarith
  have "for_loop (i0 + 1) n body (st (i0 + 1)) = Inr (st n)"
    using Suc.hyps(2) lt Suc.prems(2) by (intro Suc.hyps(1)) auto
  moreover have "body i0 (st i0) = Inr (st (i0 + 1))"
    using Suc.prems(2) lt by simp
  ultimately show ?case using lt by (simp add: for_loop.simps [of i0])
qed

lemma for_ij_fill:
  assumes wf: "wf_heap h"
    and win: "p < length h" "0 \<le> r0" "r0 + n \<le> rows (h ! p)" "0 \<le> c0" "c0 + n \<le> cols (h ! p)"
    and body: "\<And>i j W F. 0 \<le> i \<Longrightarrow> i < n \<Longrightarrow> 0 \<le> j \<Longrightarrow> j < n
        \<Longrightarrow> (\<And>r c. W r c \<Longrightarrow> r0 \<le> r \<and> r < r0 + n \<and> c0 \<le> c \<and> c < c0 + n)
        \<Longrightarrow> body i j (fill h p W F) = Inr (poke (fill h p W F) p (r0 + i) (c0 + j) (val i j))"
  shows "for_ij n body h =
         Inr (fill h p (\<lambda>r c. r0 \<le> r \<and> r < r0 + n \<and> c0 \<le> c \<and> c < c0 + n)
                       (\<lambda>r c. val (r - r0) (c - c0)))"
proof (cases "0 < n")
  case False
  then have "(\<lambda>r c. r0 \<le> r \<and> r < r0 + n \<and> c0 \<le> c \<and> c < c0 + n) = (\<lambda>r c. False)"
    by (intro ext) auto
  then show ?thesis using False by (simp add: for_ij_def for_loop_done)
next
  case True
  define G where "G = (\<lambda>r c. val (r - r0) (c - c0))"
  define stO where "stO i = fill h p (\<lambda>r c. r0 \<le> r \<and> r < r0 + i \<and> c0 \<le> c \<and> c < c0 + n) G" for i
  define stI where "stI i j = fill h p (\<lambda>r c. (r0 \<le> r \<and> r < r0 + i \<and> c0 \<le> c \<and> c < c0 + n)
                                  \<or> (r = r0 + i \<and> c0 \<le> c \<and> c < c0 + j)) G" for i j
  have step: "body i j (stI i j) = Inr (stI i (j + 1))"
    if ij: "0 \<le> i" "i < n" "0 \<le> j" "j < n" for i j
  proof -
    have ib: "inb h p (r0 + i) (c0 + j)" using win ij by (simp add: inb_def)
    have "body i j (stI i j) = Inr (poke (stI i j) p (r0 + i) (c0 + j) (val i j))"
      unfolding stI_def using ij by (intro body) auto
    also have "poke (stI i j) p (r0 + i) (c0 + j) (val i j) =
               fill (stI i j) p (\<lambda>r c. r = r0 + i \<and> c = c0 + j) (\<lambda>r c. val i j)"
      using wf ib by (intro poke_as_fill) (simp_all add: stI_def)
    also have "\<dots> = stI i (j + 1)"
    proof -
      have 1: "(\<lambda>r c. ((r0 \<le> r \<and> r < r0 + i \<and> c0 \<le> c \<and> c < c0 + n)
                  \<or> (r = r0 + i \<and> c0 \<le> c \<and> c < c0 + j)) \<or> (r = r0 + i \<and> c = c0 + j))
             = (\<lambda>r c. (r0 \<le> r \<and> r < r0 + i \<and> c0 \<le> c \<and> c < c0 + n)
                  \<or> (r = r0 + i \<and> c0 \<le> c \<and> c < c0 + (j + 1)))"
        using ij by (intro ext) auto
      have 2: "(\<lambda>r c. if r = r0 + i \<and> c = c0 + j then val i j else G r c) = G"
        by (intro ext) (simp add: G_def)
      show ?thesis unfolding stI_def fill_fill 1 2 by (rule refl)
    qed
    finally show ?thesis .
  qed
  have inner: "for_loop 0 n (body i) (stO i) = Inr (stO (i + 1))" if i: "0 \<le> i" "i < n" for i
  proof -
    have a: "stI i 0 = stO i"
    proof -
      have "(\<lambda>r c. (r0 \<le> r \<and> r < r0 + i \<and> c0 \<le> c \<and> c < c0 + n)
                  \<or> (r = r0 + i \<and> c0 \<le> c \<and> c < c0 + 0))
          = (\<lambda>r c. r0 \<le> r \<and> r < r0 + i \<and> c0 \<le> c \<and> c < c0 + n)"
        by (intro ext) auto
      then show ?thesis by (simp add: stI_def stO_def)
    qed
    have b: "stI i n = stO (i + 1)"
    proof -
      have "(\<lambda>r c. (r0 \<le> r \<and> r < r0 + i \<and> c0 \<le> c \<and> c < c0 + n)
                  \<or> (r = r0 + i \<and> c0 \<le> c \<and> c < c0 + n))
          = (\<lambda>r c. r0 \<le> r \<and> r < r0 + (i + 1) \<and> c0 \<le> c \<and> c < c0 + n)"
        using i by (intro ext) auto
      then show ?thesis by (simp add: stI_def stO_def)
    qed
    have "for_loop 0 n (body i) (stI i 0) = Inr (stI i n)"
      using True step [OF i] by (intro for_loop_steps) auto
    then show ?thesis by (simp add: a b)
  qed
  have "for_loop 0 n (\<lambda>i. for_loop 0 n (body i)) (stO 0) = Inr (stO n)"
    using True inner by (intro for_loop_steps) auto
  moreover have "stO 0 = h"
  proof -
    have "(\<lambda>r c. r0 \<le> r \<and> r < r0 + 0 \<and> c0 \<le> c \<and> c < c0 + n) = (\<lambda>r c. False)"
      by (intro ext) auto
    then show ?thesis by (simp add: stO_def)
  qed
  ultimately show ?thesis by (simp add: for_ij_def stO_def G_def)
qed

section \<open>Multiplication computes the product\<close>

lemma valid_window:
  "valid h v \<Longrightarrow> baseAddr v < length h \<and> 0 \<le> row0 v \<and> row0 v + extRows h v \<le> rows (h ! baseAddr v)
     \<and> 0 \<le> col0 v \<and> col0 v + extCols h v \<le> cols (h ! baseAddr v)"
proof (induction v)
  case (MatrixAt p)
  then show ?case by simp
next
  case (View b r c n m)
  then show ?case by (cases b) (auto split: if_splits)
qed

lemma rd_fill:
  assumes "wf_heap h" "valid h v" "0 \<le> i" "i < extRows h v" "0 \<le> j" "j < extCols h v"
  shows "rd (fill h p W F) v i j =
         Inr (if baseAddr v = p \<and> W (row0 v + i) (col0 v + j) then F (row0 v + i) (col0 v + j)
              else rdv h v i j)"
proof -
  have "rd (fill h p W F) v i j = Inr (rdv (fill h p W F) v i j)"
    using assms by (intro rd_valid) simp_all
  moreover have "inb h (baseAddr v) (i + row0 v) (j + col0 v)"
    using assms by (intro inb_valid)
  ultimately show ?thesis
    using assms(1) by (simp add: rdv_def cell_fill add.commute)
qed

lemma wr_fill:
  assumes "wf_heap h" "valid h v" "0 \<le> i" "i < extRows h v" "0 \<le> j" "j < extCols h v"
  shows "wr (fill h (baseAddr v) W F) v i j x =
         Inr (fill h (baseAddr v) (\<lambda>r c. W r c \<or> (r = row0 v + i \<and> c = col0 v + j))
                (\<lambda>r c. if r = row0 v + i \<and> c = col0 v + j then x else F r c))"
proof -
  let ?h = "fill h (baseAddr v) W F"
  have ib: "inb h (baseAddr v) (row0 v + i) (col0 v + j)"
    using inb_valid [OF assms(2-6)] by (simp add: add.commute)
  have "wr ?h v i j x = Inr (poke ?h (baseAddr v) (row0 v + i) (col0 v + j) x)"
    using wr_valid [of ?h v i j x] assms by (simp add: add.commute)
  also have "poke ?h (baseAddr v) (row0 v + i) (col0 v + j) x =
     fill ?h (baseAddr v) (\<lambda>r c. r = row0 v + i \<and> c = col0 v + j) (\<lambda>r c. x)"
    using assms(1) ib by (intro poke_as_fill) simp_all
  finally show ?thesis unfolding fill_fill .
qed

lemma sum_upto_int:
  fixes f :: "int \<Rightarrow> 'a::comm_monoid_add"
  assumes "0 \<le> k"
  shows "(\<Sum>x \<in> {0..<k + 1}. f x) = (\<Sum>x \<in> {0..<k}. f x) + f k"
proof -
  have "{0..<k + 1} = insert k {0..<k}" using assms by auto
  then show ?thesis by (simp add: add.commute)
qed

lemma window_eq:
  "window v n = (\<lambda>r c. row0 v \<le> r \<and> r < row0 v + n \<and> col0 v \<le> c \<and> c < col0 v + n)"
  by (intro ext) (simp add: window_def)

lemma Multiplication_fill:
  fixes h :: "('a::semiring_0) heap"
  assumes wf: "wf_heap h" and va: "valid h a" and vb: "valid h b" and vc: "valid h c"
    and ea: "sz \<le> extRows h a" "sz \<le> extCols h a"
    and eb: "sz \<le> extRows h b" "sz \<le> extCols h b"
    and ec: "sz \<le> extRows h c" "sz \<le> extCols h c"
    and sa: "separate c a sz" and sb: "separate c b sz"
  shows "Multiplication a b c sz h =
         Inr (fill h (baseAddr c) (window c sz)
                (\<lambda>r c'. matprod (rdv h a) (rdv h b) sz (r - row0 c) (c' - col0 c)))"
proof -
  let ?p = "baseAddr c" and ?A = "rdv h a" and ?B = "rdv h b"
  let ?body = "\<lambda>i j h.
       bindE (wr h c i j 0) (for_loop 0 sz (\<lambda>k h.
         bindE (rd h c i j) (\<lambda>x. bindE (rd h a i k) (\<lambda>y. bindE (rd h b k j) (\<lambda>z.
           wr h c i j (x + y * z))))))"
  note wc = valid_window [OF vc]
  have body: "?body i j (fill h ?p W F) =
       Inr (poke (fill h ?p W F) ?p (row0 c + i) (col0 c + j) (matprod ?A ?B sz i j))"
    if ij: "0 \<le> i" "i < sz" "0 \<le> j" "j < sz"
      and W: "\<And>r c'. W r c' \<Longrightarrow> row0 c \<le> r \<and> r < row0 c + sz \<and> col0 c \<le> c' \<and> c' < col0 c + sz"
    for i j W F
  proof -
    let ?pt = "\<lambda>r c'. r = row0 c + i \<and> c' = col0 c + j"
    define st where "st k = fill h ?p (\<lambda>r c'. W r c' \<or> ?pt r c')
        (\<lambda>r c'. if ?pt r c' then (\<Sum>k' \<in> {0..<k}. ?A i k' * ?B k' j) else F r c')" for k
    have w0: "wr (fill h ?p W F) c i j 0 = Inr (st 0)"
      using wr_fill [OF wf vc, of i j W F 0] ij ec by (simp add: st_def cong: if_cong)
    have kstep: "bindE (rd (st k) c i j) (\<lambda>x. bindE (rd (st k) a i k) (\<lambda>y.
                   bindE (rd (st k) b k j) (\<lambda>z. wr (st k) c i j (x + y * z)))) = Inr (st (k + 1))"
      (is "?lhs = _") if k: "0 \<le> k" "k < sz" for k
    proof -
      have rc: "rd (st k) c i j = Inr (\<Sum>k' \<in> {0..<k}. ?A i k' * ?B k' j)"
        unfolding st_def using rd_fill [OF wf vc, of i j] ij ec by simp
      have na: "\<not> (baseAddr a = ?p \<and> (W (row0 a + i) (col0 a + k) \<or> ?pt (row0 a + i) (col0 a + k)))"
        using sa W [of "row0 a + i" "col0 a + k"] ij k by (auto simp: separate_def)
      have ra: "rd (st k) a i k = Inr (?A i k)"
        unfolding st_def using rd_fill [OF wf va, of i k] ij k ea na by auto
      have nb: "\<not> (baseAddr b = ?p \<and> (W (row0 b + k) (col0 b + j) \<or> ?pt (row0 b + k) (col0 b + j)))"
        using sb W [of "row0 b + k" "col0 b + j"] ij k by (auto simp: separate_def)
      have rb: "rd (st k) b k j = Inr (?B k j)"
        unfolding st_def using rd_fill [OF wf vb, of k j] ij k eb nb by auto
      have ww: "wr (st k) c i j x = Inr (fill h ?p (\<lambda>r c'. W r c' \<or> ?pt r c')
                   (\<lambda>r c'. if ?pt r c' then x else F r c'))" for x
      proof -
        have 1: "(\<lambda>r c'. (W r c' \<or> ?pt r c') \<or> ?pt r c') = (\<lambda>r c'. W r c' \<or> ?pt r c')"
          by (intro ext) auto
        have 2: "(\<lambda>r c'. if ?pt r c' then x
                  else if ?pt r c' then (\<Sum>k' \<in> {0..<k}. ?A i k' * ?B k' j) else F r c')
               = (\<lambda>r c'. if ?pt r c' then x else F r c')"
          by (intro ext) auto
        have "wr (st k) c i j x = Inr (fill h ?p (\<lambda>r c'. (W r c' \<or> ?pt r c') \<or> ?pt r c')
                (\<lambda>r c'. if ?pt r c' then x
                  else if ?pt r c' then (\<Sum>k' \<in> {0..<k}. ?A i k' * ?B k' j) else F r c'))"
          unfolding st_def using ij ec by (intro wr_fill [OF wf vc]) auto
        then show ?thesis unfolding 1 2 .
      qed
      have "?lhs = Inr (fill h ?p (\<lambda>r c'. W r c' \<or> ?pt r c')
                   (\<lambda>r c'. if ?pt r c' then (\<Sum>k' \<in> {0..<k}. ?A i k' * ?B k' j) + ?A i k * ?B k j
                            else F r c'))"
        by (simp add: rc ra rb ww)
      also have "\<dots> = Inr (st (k + 1))"
        unfolding st_def by (simp add: sum_upto_int [OF k(1)] cong: if_cong)
      finally show ?thesis .
    qed
    have "for_loop 0 sz (\<lambda>k h. bindE (rd h c i j) (\<lambda>x. bindE (rd h a i k) (\<lambda>y.
             bindE (rd h b k j) (\<lambda>z. wr h c i j (x + y * z))))) (st 0) = Inr (st sz)"
      using ij kstep by (intro for_loop_steps) auto
    moreover have "poke (fill h ?p W F) ?p (row0 c + i) (col0 c + j) (matprod ?A ?B sz i j) = st sz"
    proof -
      have ib: "inb h ?p (row0 c + i) (col0 c + j)"
        using inb_valid [OF vc, of i j] ij ec by (simp add: add.commute)
      have "poke (fill h ?p W F) ?p (row0 c + i) (col0 c + j) (matprod ?A ?B sz i j) =
            fill (fill h ?p W F) ?p ?pt (\<lambda>r c'. matprod ?A ?B sz i j)"
        using wf ib by (intro poke_as_fill) simp_all
      then show ?thesis unfolding fill_fill st_def matprod_def .
    qed
    ultimately show ?thesis by (simp add: w0)
  qed
  have "for_ij sz ?body h =
         Inr (fill h ?p (\<lambda>r c'. row0 c \<le> r \<and> r < row0 c + sz \<and> col0 c \<le> c' \<and> c' < col0 c + sz)
                       (\<lambda>r c'. matprod ?A ?B sz (r - row0 c) (c' - col0 c)))"
    using wf wc ec body by (intro for_ij_fill) auto
  then show ?thesis by (simp add: Multiplication_def window_eq)
qed

section \<open>The temporaries of the recursive case\<close>

lemma mat_simps [simp]:
  "rows (mat n F) = n" "cols (mat n F) = n" "length (data (mat n F)) = nat (n * n)"
  by (simp_all add: mat_def)

lemma wf_mat [simp]: "0 \<le> n \<Longrightarrow> wf_Matrix (mat n F)"
  by (simp add: wf_Matrix_def)

lemma length_heapT [simp]: "length (heapT h n G) = length h + 17"
  by (simp add: heapT_def)

lemma heapT_nth_old [simp]: "q < length h \<Longrightarrow> heapT h n G ! q = h ! q"
  by (simp add: heapT_def nth_append)

lemma heapT_nth_tmp [simp]: "k < 17 \<Longrightarrow> heapT h n G ! (length h + k) = mat n (G k)"
  by (simp add: heapT_def nth_append del: upt_Suc)

lemma wf_heapT [simp]: "0 \<le> n \<Longrightarrow> wf_heap (heapT h n G) = wf_heap h"
  by (auto simp: wf_heap_def heapT_def list_all_iff)

lemma take_heapT [simp]: "take (length h) (heapT h n G) = h"
  by (simp add: heapT_def)

lemma get_append:
  "valid h v \<Longrightarrow> get (h @ ts) v i j = get h v i j"
  by (induction v arbitrary: i j) (auto simp: nth_append split: if_splits)

lemma ext_append:
  "valid h v \<Longrightarrow> extRows (h @ ts) v = extRows h v \<and> extCols (h @ ts) v = extCols h v"
  by (cases v) (auto simp: nth_append)

lemma valid_append: "valid h v \<Longrightarrow> valid (h @ ts) v"
proof (induction v)
  case (MatrixAt p)
  then show ?case by simp
next
  case (View b r c n m)
  then show ?case using ext_append [of h b ts] by (simp add: makeView_ext)
qed

lemma rdv_append: "valid h v \<Longrightarrow> rdv (h @ ts) v i j = rdv h v i j"
  using valid_window [of h v] by (simp add: rdv_def cell_def nth_append)

lemma holds_old: "holds h v m M \<Longrightarrow> holds (heapT h n G) v m M"
  unfolding holds_def heapT_def
  using valid_append [of h v] ext_append [of h v] rdv_append [of h v] by simp

lemma holds_self: "valid h v \<Longrightarrow> m \<le> extRows h v \<Longrightarrow> m \<le> extCols h v \<Longrightarrow> holds h v m (rdv h v)"
  by (simp add: holds_def)

lemma valid_vw_tmp: "k < 17 \<Longrightarrow> 0 \<le> n \<Longrightarrow> valid (heapT h n G) (vw (length h + k) n)"
  by (simp add: vw_def)

lemma rdv_vw_tmp:
  assumes "k < 17" "0 \<le> i" "i < n" "0 \<le> j" "j < n"
  shows "rdv (heapT h n G) (vw (length h + k) n) i j = G k i j"
proof -
  have b: "i * n + j < n * n" using index_bound [of i n j n] assms by simp
  have nn: "0 \<le> i * n + j" using assms by simp
  have "data (mat n (G k)) ! nat (i * n + j) = G k i j"
    using b nn assms by (simp add: mat_def index_div index_mod)
  then show ?thesis using assms(1) by (simp add: rdv_def cell_def vw_def)
qed

lemma holds_tmp: "k < 17 \<Longrightarrow> 0 \<le> n \<Longrightarrow> holds (heapT h n G) (vw (length h + k) n) n (G k)"
  using rdv_vw_tmp [of k _ n _ h G] valid_vw_tmp [of k n h G]
  by (simp add: holds_def) (simp add: vw_def)

lemma fill_heapT_old: "p < length h \<Longrightarrow> fill (heapT h n G) p W F = heapT (fill h p W F) n G"
  by (simp add: heapT_def fill_append1)

lemma fillM_mat:
  assumes "0 \<le> n" and "\<And>r c. 0 \<le> r \<Longrightarrow> r < n \<Longrightarrow> 0 \<le> c \<Longrightarrow> c < n \<Longrightarrow> W r c \<and> F r c = M r c"
  shows "fillM (mat n G) W F = mat n M"
proof -
  have "data (fillM (mat n G) W F) = data (mat n M)"
  proof (rule nth_equalityI)
    show "length (data (fillM (mat n G) W F)) = length (data (mat n M))" by simp
  next
    fix k assume "k < length (data (fillM (mat n G) W F))"
    then have k: "k < nat (n * n)" by simp
    then have pos: "0 < n" using assms(1) by (cases "n = 0") auto
    have "int k div n < n"
    proof (rule ccontr)
      assume "\<not> int k div n < n"
      then have le: "n * n \<le> int k div n * n" using pos by (intro mult_right_mono) auto
      have m: "0 \<le> int k mod n" using pos by simp
      have e: "int k = int k div n * n + int k mod n" by simp
      from le m e k show False by linarith
    qed
    moreover have "0 \<le> int k div n" using pos by (simp add: pos_imp_zdiv_nonneg_iff)
    ultimately have "W (int k div n) (int k mod n) \<and> F (int k div n) (int k mod n) = M (int k div n) (int k mod n)"
      using pos by (intro assms(2)) auto
    then show "data (fillM (mat n G) W F) ! k = data (mat n M) ! k"
      using k by (simp add: data_fillM) (simp add: mat_def)
  qed
  then show ?thesis by (simp add: fillM_def mat_def)
qed

lemma fill_heapT_tmp:
  assumes "k < 17" "0 \<le> n"
    and "\<And>r c. 0 \<le> r \<Longrightarrow> r < n \<Longrightarrow> 0 \<le> c \<Longrightarrow> c < n \<Longrightarrow> W r c \<and> F r c = M r c"
  shows "fill (heapT h n G) (length h + k) W F = heapT h n (G(k := M))"
proof -
  have "(map (\<lambda>k. mat n (G k)) [0..<17])[k := fillM (mat n (G k)) W F]
      = map (\<lambda>k'. mat n ((G(k := M)) k')) [0..<17]"
    using assms(1) fillM_mat [of n W F M "G k", OF assms(2,3)]
    by (intro nth_equalityI) (auto simp: nth_list_update simp del: upt_Suc)
  then show ?thesis
    using assms(1) by (simp add: fill_def heapT_def list_update_append nth_append del: upt_Suc)
qed

lemma assign2_loop:
  assumes wf: "wf_heap H" and vd: "valid H d" and ed: "n \<le> extRows H d" "n \<le> extCols H d"
    and hx: "holds H x n X" and hy: "holds H y n Y"
    and ne: "baseAddr x \<noteq> baseAddr d" "baseAddr y \<noteq> baseAddr d"
  shows "for_ij n (assign2 d f x y) H =
         Inr (fill H (baseAddr d) (window d n)
                (\<lambda>r c. f (X (r - row0 d) (c - col0 d)) (Y (r - row0 d) (c - col0 d))))"
proof -
  note wd = valid_window [OF vd]
  have body: "assign2 d f x y i j (fill H (baseAddr d) W F) =
       Inr (poke (fill H (baseAddr d) W F) (baseAddr d) (row0 d + i) (col0 d + j) (f (X i j) (Y i j)))"
    if ij: "0 \<le> i" "i < n" "0 \<le> j" "j < n" for i j W F
  proof -
    have rx: "rd (fill H (baseAddr d) W F) x i j = Inr (X i j)"
      using rd_fill [OF wf, of x i j "baseAddr d" W F] hx ij ne by (simp add: holds_def)
    have ry: "rd (fill H (baseAddr d) W F) y i j = Inr (Y i j)"
      using rd_fill [OF wf, of y i j "baseAddr d" W F] hy ij ne by (simp add: holds_def)
    have w: "wr (fill H (baseAddr d) W F) d i j v =
         Inr (poke (fill H (baseAddr d) W F) (baseAddr d) (row0 d + i) (col0 d + j) v)" for v
      using wr_valid [of "fill H (baseAddr d) W F" d i j v] vd ed ij by (simp add: add.commute)
    show ?thesis by (simp add: assign2_def rx ry w)
  qed
  have "for_ij n (assign2 d f x y) H =
         Inr (fill H (baseAddr d) (\<lambda>r c. row0 d \<le> r \<and> r < row0 d + n \<and> col0 d \<le> c \<and> c < col0 d + n)
                (\<lambda>r c. f (X (r - row0 d) (c - col0 d)) (Y (r - row0 d) (c - col0 d))))"
    using wf wd ed body by (intro for_ij_fill) auto
  then show ?thesis by (simp add: window_eq)
qed

lemma assign4_loop:
  assumes wf: "wf_heap H" and vd: "valid H d" and ed: "n \<le> extRows H d" "n \<le> extCols H d"
    and hx: "holds H x n X" and hy: "holds H y n Y" and hz: "holds H z n Z" and hw: "holds H w n V"
    and ne: "baseAddr x \<noteq> baseAddr d" "baseAddr y \<noteq> baseAddr d"
            "baseAddr z \<noteq> baseAddr d" "baseAddr w \<noteq> baseAddr d"
  shows "for_ij n (assign4 d f x y z w) H =
         Inr (fill H (baseAddr d) (window d n)
                (\<lambda>r c. f (X (r - row0 d) (c - col0 d)) (Y (r - row0 d) (c - col0 d))
                         (Z (r - row0 d) (c - col0 d)) (V (r - row0 d) (c - col0 d))))"
proof -
  note wd = valid_window [OF vd]
  have body: "assign4 d f x y z w i j (fill H (baseAddr d) W F) =
       Inr (poke (fill H (baseAddr d) W F) (baseAddr d) (row0 d + i) (col0 d + j)
              (f (X i j) (Y i j) (Z i j) (V i j)))"
    if ij: "0 \<le> i" "i < n" "0 \<le> j" "j < n" for i j W F
  proof -
    have rx: "rd (fill H (baseAddr d) W F) x i j = Inr (X i j)"
      using rd_fill [OF wf, of x i j "baseAddr d" W F] hx ij ne by (simp add: holds_def)
    have ry: "rd (fill H (baseAddr d) W F) y i j = Inr (Y i j)"
      using rd_fill [OF wf, of y i j "baseAddr d" W F] hy ij ne by (simp add: holds_def)
    have rz: "rd (fill H (baseAddr d) W F) z i j = Inr (Z i j)"
      using rd_fill [OF wf, of z i j "baseAddr d" W F] hz ij ne by (simp add: holds_def)
    have rw: "rd (fill H (baseAddr d) W F) w i j = Inr (V i j)"
      using rd_fill [OF wf, of w i j "baseAddr d" W F] hw ij ne by (simp add: holds_def)
    have w: "wr (fill H (baseAddr d) W F) d i j v =
         Inr (poke (fill H (baseAddr d) W F) (baseAddr d) (row0 d + i) (col0 d + j) v)" for v
      using wr_valid [of "fill H (baseAddr d) W F" d i j v] vd ed ij by (simp add: add.commute)
    show ?thesis by (simp add: assign4_def rx ry rz rw w)
  qed
  have "for_ij n (assign4 d f x y z w) H =
         Inr (fill H (baseAddr d) (\<lambda>r c. row0 d \<le> r \<and> r < row0 d + n \<and> col0 d \<le> c \<and> c < col0 d + n)
                (\<lambda>r c. f (X (r - row0 d) (c - col0 d)) (Y (r - row0 d) (c - col0 d))
                         (Z (r - row0 d) (c - col0 d)) (V (r - row0 d) (c - col0 d))))"
    using wf wd ed body by (intro for_ij_fill) auto
  then show ?thesis by (simp add: window_eq)
qed

lemma quadrants_ok:
  assumes "0 \<le> n" "2 * n \<le> extRows h v" "2 * n \<le> extCols h v"
  shows "quadrants h v n = Inr (View v 0 0 n n, View v 0 n n n, View v n 0 n n, View v n n n n)"
proof -
  have "makeView h v r c n n = Inr (View v r c n n)" if "r = 0 \<or> r = n" "c = 0 \<or> c = n" for r c
    using that assms by (intro makeView_inside) auto
  then show ?thesis by (simp add: quadrants_def)
qed

lemma rdv_View: "rdv h (View v r c n m) i j = rdv h v (i + r) (j + c)"
  by (simp add: rdv_def ac_simps)

lemma holds_sub:
  assumes "holds h v m M" "0 \<le> r" "0 \<le> c" "0 \<le> n" "r + n \<le> m" "c + n \<le> m"
  shows "holds h (View v r c n n) n (\<lambda>i j. M (i + r) (j + c))"
  using assms unfolding holds_def by (simp add: makeView_ext rdv_View)

lemma Matrix_new_mat: "0 \<le> n \<Longrightarrow> Matrix_new n n = Inr (mat n (\<lambda>r c. 0))"
  by (simp add: Matrix_new_def mat_def map_replicate_const)

lemma new_temp_ok: "0 \<le> n \<Longrightarrow> new_temp n h = Inr (vw (length h) n, h @ [mat n (\<lambda>r c. 0)])"
  using makeView_inside [of 0 0 n n "h @ [mat n (\<lambda>r c. 0)]" "MatrixAt (length h)"]
  by (simp add: new_temp_def Matrix_new_mat View_copy_def vw_def)

lemma new_temps_ok:
  "0 \<le> n \<Longrightarrow> new_temps k n h =
     Inr (map (\<lambda>i. vw (length h + i) n) [0..<k], h @ replicate k (mat n (\<lambda>r c. 0)))"
proof (induction k arbitrary: h)
  case 0
  then show ?case by simp
next
  case (Suc k)
  have "map (\<lambda>i. vw (length h + i) n) [0..<Suc k]
        = vw (length h) n # map (\<lambda>i. vw (Suc (length h + i)) n) [0..<k]"
    by (simp add: map_upt_Suc del: upt_Suc)
  then show ?case using Suc by (simp add: new_temp_ok replicate_app_Cons_same del: upt_Suc)
qed

lemma heapT_fresh:
  "(h @ replicate 10 (mat n (\<lambda>r c. 0))) @ replicate 7 (mat n (\<lambda>r c. 0)) = heapT h n (\<lambda>k r c. 0)"
proof -
  have "replicate 10 (mat n (\<lambda>r c. 0)) @ replicate 7 (mat n (\<lambda>r c. 0))
        = replicate 17 (mat n (\<lambda>r c. 0))"
    by (simp add: replicate_add [symmetric])
  also have "\<dots> = map (\<lambda>k. mat n (\<lambda>r c. 0)) [0..<17]"
    by (simp add: map_replicate_const del: upt_Suc)
  finally show ?thesis by (simp add: heapT_def)
qed

lemma P_Strassen_unfold:
  assumes "sz \<noteq> 1" "tmod sz 2 = 0" "\<not> 1 < level" "tdiv sz 2 = n"
    and "quadrants h a n = Inr (a11, a12, a21, a22)"
    and "quadrants h b n = Inr (b11, b12, b21, b22)"
    and "quadrants h c n = Inr qc"
    and "new_temps 10 n h = Inr (s, h1)"
    and "new_temps 7 n h1 = Inr (p, h2)"
    and "compute_s (a11, a12, a21, a22) (b11, b12, b21, b22) s n h2 = Inr h3"
    and "P_Strassen a11 (s ! 0) (p ! 0) n (level + 1) h3 = Inr h4"
    and "P_Strassen (s ! 1) b22 (p ! 1) n (level + 1) h4 = Inr h5"
    and "P_Strassen (s ! 2) b11 (p ! 2) n (level + 1) h5 = Inr h6"
    and "P_Strassen a22 (s ! 3) (p ! 3) n (level + 1) h6 = Inr h7"
    and "P_Strassen (s ! 4) (s ! 5) (p ! 4) n (level + 1) h7 = Inr h8"
    and "P_Strassen (s ! 6) (s ! 7) (p ! 5) n (level + 1) h8 = Inr h9"
    and "P_Strassen (s ! 8) (s ! 9) (p ! 6) n (level + 1) h9 = Inr h10"
    and "combine qc p n h10 = Inr h11"
  shows "P_Strassen a b c sz level h = Inr (take (length h) h11)"
  using assms by (subst P_Strassen.simps) simp

lemma matprod_cong:
  assumes "\<And>k. 0 \<le> k \<Longrightarrow> k < n \<Longrightarrow> X i k = X' i k"
    and "\<And>k. 0 \<le> k \<Longrightarrow> k < n \<Longrightarrow> Y k j = Y' k j"
  shows "matprod X Y n i j = matprod X' Y' n i j"
  unfolding matprod_def using assms by (intro sum.cong) auto

lemma matprod_split:
  assumes "0 \<le> n"
  shows "matprod A B (2 * n) i j =
         matprod A B n i j + matprod (\<lambda>i k. A i (k + n)) (\<lambda>k j. B (k + n) j) n i j"
proof -
  have u: "{0..<2 * n} = {0..<n} \<union> {n..<2 * n}" using assms by auto
  have d: "{0..<n} \<inter> {n..<2 * n} = {}" by auto
  have "(\<Sum>k \<in> {n..<2 * n}. A i k * B k j) = (\<Sum>k \<in> {0..<n}. A i (k + n) * B (k + n) j)"
    by (rule sum.reindex_bij_witness [of _ "\<lambda>k. k + n" "\<lambda>k. k - n"]) auto
  then show ?thesis
    unfolding matprod_def u by (simp add: sum.union_disjoint d)
qed

lemma matprod_add_l:
  "matprod (\<lambda>i j. X i j + Y i j) B n i j = matprod X B n i j + matprod Y B n i j"
  by (simp add: matprod_def distrib_right sum.distrib)

lemma matprod_add_r:
  "matprod A (\<lambda>i j. X i j + Y i j) n i j = matprod A X n i j + matprod A Y n i j"
  by (simp add: matprod_def distrib_left sum.distrib)

lemma matprod_sub_l:
  fixes X :: "int \<Rightarrow> int \<Rightarrow> 'a::ring"
  shows "matprod (\<lambda>i j. X i j - Y i j) B n i j = matprod X B n i j - matprod Y B n i j"
  by (simp add: matprod_def left_diff_distrib sum_subtractf)

lemma matprod_sub_r:
  fixes X :: "int \<Rightarrow> int \<Rightarrow> 'a::ring"
  shows "matprod A (\<lambda>i j. X i j - Y i j) n i j = matprod A X n i j - matprod A Y n i j"
  by (simp add: matprod_def right_diff_distrib sum_subtractf)

lemmas matprod_lin = matprod_add_l matprod_add_r matprod_sub_l matprod_sub_r

lemma strassen_identity:
  fixes A B :: "int \<Rightarrow> int \<Rightarrow> 'a::ring"
  assumes "0 \<le> n"
  defines "A11 \<equiv> \<lambda>i j. A i j" and "A12 \<equiv> \<lambda>i j. A i (j + n)"
    and "A21 \<equiv> \<lambda>i j. A (i + n) j" and "A22 \<equiv> \<lambda>i j. A (i + n) (j + n)"
    and "B11 \<equiv> \<lambda>i j. B i j" and "B12 \<equiv> \<lambda>i j. B i (j + n)"
    and "B21 \<equiv> \<lambda>i j. B (i + n) j" and "B22 \<equiv> \<lambda>i j. B (i + n) (j + n)"
  defines "P1 \<equiv> matprod A11 (\<lambda>i j. B12 i j - B22 i j) n"
    and "P2 \<equiv> matprod (\<lambda>i j. A11 i j + A12 i j) B22 n"
    and "P3 \<equiv> matprod (\<lambda>i j. A21 i j + A22 i j) B11 n"
    and "P4 \<equiv> matprod A22 (\<lambda>i j. B21 i j - B11 i j) n"
    and "P5 \<equiv> matprod (\<lambda>i j. A11 i j + A22 i j) (\<lambda>i j. B11 i j + B22 i j) n"
    and "P6 \<equiv> matprod (\<lambda>i j. A12 i j - A22 i j) (\<lambda>i j. B21 i j + B22 i j) n"
    and "P7 \<equiv> matprod (\<lambda>i j. A11 i j - A21 i j) (\<lambda>i j. B11 i j + B12 i j) n"
  shows "P5 i j + P4 i j - P2 i j + P6 i j = matprod A B (2 * n) i j"
    and "P1 i j + P2 i j = matprod A B (2 * n) i (j + n)"
    and "P3 i j + P4 i j = matprod A B (2 * n) (i + n) j"
    and "P5 i j + P1 i j - P3 i j - P7 i j = matprod A B (2 * n) (i + n) (j + n)"
proof -
  have s11: "matprod A B (2 * n) i j = matprod A11 B11 n i j + matprod A12 B21 n i j"
    unfolding matprod_split [OF assms(1)] A11_def A12_def B11_def B21_def by (simp add: matprod_def)
  have s12: "matprod A B (2 * n) i (j + n) = matprod A11 B12 n i j + matprod A12 B22 n i j"
    unfolding matprod_split [OF assms(1)] A11_def A12_def B12_def B22_def by (simp add: matprod_def)
  have s21: "matprod A B (2 * n) (i + n) j = matprod A21 B11 n i j + matprod A22 B21 n i j"
    unfolding matprod_split [OF assms(1)] A21_def A22_def B11_def B21_def by (simp add: matprod_def)
  have s22: "matprod A B (2 * n) (i + n) (j + n) = matprod A21 B12 n i j + matprod A22 B22 n i j"
    unfolding matprod_split [OF assms(1)] A21_def A22_def B12_def B22_def by (simp add: matprod_def)
  show "P5 i j + P4 i j - P2 i j + P6 i j = matprod A B (2 * n) i j"
    unfolding s11 P5_def P4_def P2_def P6_def by (simp add: matprod_lin algebra_simps)
  show "P1 i j + P2 i j = matprod A B (2 * n) i (j + n)"
    unfolding s12 P1_def P2_def by (simp add: matprod_lin algebra_simps)
  show "P3 i j + P4 i j = matprod A B (2 * n) (i + n) j"
    unfolding s21 P3_def P4_def by (simp add: matprod_lin algebra_simps)
  show "P5 i j + P1 i j - P3 i j - P7 i j = matprod A B (2 * n) (i + n) (j + n)"
    unfolding s22 P5_def P1_def P3_def P7_def by (simp add: matprod_lin algebra_simps)
qed

lemma vw_simps [simp]:
  "baseAddr (vw q n) = q" "row0 (vw q n) = 0" "col0 (vw q n) = 0"
  by (simp_all add: vw_def)

lemma window_vw: "window (vw q n) n r c \<longleftrightarrow> 0 \<le> r \<and> r < n \<and> 0 \<le> c \<and> c < n"
  by (simp add: window_def)

lemma holds_valid: "holds h v n M \<Longrightarrow> valid h v \<and> n \<le> extRows h v \<and> n \<le> extCols h v"
  by (simp add: holds_def)

lemma valid_heapT: "valid h v \<Longrightarrow> valid (heapT h n G) v"
  by (simp add: heapT_def valid_append)

lemma ext_heapT:
  "valid h v \<Longrightarrow> extRows (heapT h n G) v = extRows h v \<and> extCols (heapT h n G) v = extCols h v"
  by (simp add: heapT_def ext_append)

lemma assign2_tmp:
  assumes "wf_heap h" "0 \<le> n" "k < 17"
    and "holds (heapT h n G) x n X" "holds (heapT h n G) y n Y"
    and "baseAddr x \<noteq> length h + k" "baseAddr y \<noteq> length h + k"
  shows "for_ij n (assign2 (vw (length h + k) n) f x y) (heapT h n G) =
         Inr (heapT h n (G(k := \<lambda>i j. f (X i j) (Y i j))))"
proof -
  let ?d = "vw (length h + k) n"
  have hd: "holds (heapT h n G) ?d n (G k)" using assms by (intro holds_tmp)
  have "for_ij n (assign2 ?d f x y) (heapT h n G) =
        Inr (fill (heapT h n G) (baseAddr ?d) (window ?d n)
               (\<lambda>r c. f (X (r - row0 ?d) (c - col0 ?d)) (Y (r - row0 ?d) (c - col0 ?d))))"
    using assms holds_valid [OF hd] by (intro assign2_loop) simp_all
  also have "fill (heapT h n G) (baseAddr ?d) (window ?d n)
               (\<lambda>r c. f (X (r - row0 ?d) (c - col0 ?d)) (Y (r - row0 ?d) (c - col0 ?d)))
           = heapT h n (G(k := \<lambda>i j. f (X i j) (Y i j)))"
    using assms(2,3) by (simp add: fill_heapT_tmp window_vw)
  finally show ?thesis .
qed

lemma assign2_old:
  assumes "wf_heap h" "0 \<le> n" "valid h d" "n \<le> extRows h d" "n \<le> extCols h d"
    and "holds (heapT h n G) x n X" "holds (heapT h n G) y n Y"
    and "length h \<le> baseAddr x" "length h \<le> baseAddr y"
  shows "for_ij n (assign2 d f x y) (heapT h n G) =
         Inr (heapT (fill h (baseAddr d) (window d n)
                (\<lambda>r c. f (X (r - row0 d) (c - col0 d)) (Y (r - row0 d) (c - col0 d)))) n G)"
proof -
  have b: "baseAddr d < length h" using valid_window [OF assms(3)] by simp
  have "for_ij n (assign2 d f x y) (heapT h n G) =
        Inr (fill (heapT h n G) (baseAddr d) (window d n)
               (\<lambda>r c. f (X (r - row0 d) (c - col0 d)) (Y (r - row0 d) (c - col0 d))))"
    using assms b valid_heapT [OF assms(3)] ext_heapT [OF assms(3)]
    by (intro assign2_loop) simp_all
  then show ?thesis using b by (simp add: fill_heapT_old)
qed

lemma assign4_old:
  assumes "wf_heap h" "0 \<le> n" "valid h d" "n \<le> extRows h d" "n \<le> extCols h d"
    and "holds (heapT h n G) x n X" "holds (heapT h n G) y n Y"
    and "holds (heapT h n G) z n Z" "holds (heapT h n G) w n V"
    and "length h \<le> baseAddr x" "length h \<le> baseAddr y"
        "length h \<le> baseAddr z" "length h \<le> baseAddr w"
  shows "for_ij n (assign4 d f x y z w) (heapT h n G) =
         Inr (heapT (fill h (baseAddr d) (window d n)
                (\<lambda>r c. f (X (r - row0 d) (c - col0 d)) (Y (r - row0 d) (c - col0 d))
                         (Z (r - row0 d) (c - col0 d)) (V (r - row0 d) (c - col0 d)))) n G)"
proof -
  have b: "baseAddr d < length h" using valid_window [OF assms(3)] by simp
  have "for_ij n (assign4 d f x y z w) (heapT h n G) =
        Inr (fill (heapT h n G) (baseAddr d) (window d n)
               (\<lambda>r c. f (X (r - row0 d) (c - col0 d)) (Y (r - row0 d) (c - col0 d))
                        (Z (r - row0 d) (c - col0 d)) (V (r - row0 d) (c - col0 d))))"
    using assms b valid_heapT [OF assms(3)] ext_heapT [OF assms(3)]
    by (intro assign4_loop) simp_all
  then show ?thesis using b by (simp add: fill_heapT_old)
qed

lemma PS_tmp:
  fixes h :: "('a::ring) heap"
  assumes REC: "\<And>x y z m (H :: 'a heap).
        wf_heap H \<Longrightarrow> holds H x m (rdv H x) \<Longrightarrow> holds H y m (rdv H y) \<Longrightarrow> holds H z m (rdv H z)
        \<Longrightarrow> 0 \<le> m \<Longrightarrow> separate z x m \<Longrightarrow> separate z y m
        \<Longrightarrow> P_Strassen x y z m lvl H =
            Inr (fill H (baseAddr z) (window z m)
                   (\<lambda>r c. matprod (rdv H x) (rdv H y) m (r - row0 z) (c - col0 z)))"
    and "wf_heap h" "0 \<le> n" "k < 17"
    and hx: "holds (heapT h n G) x n X" and hy: "holds (heapT h n G) y n Y"
    and "baseAddr x \<noteq> length h + k" "baseAddr y \<noteq> length h + k"
  shows "P_Strassen x y (vw (length h + k) n) n lvl (heapT h n G) =
         Inr (heapT h n (G(k := matprod X Y n)))"
proof -
  let ?H = "heapT h n G" and ?z = "vw (length h + k) n"
  have hz: "holds ?H ?z n (G k)" using assms by (intro holds_tmp)
  have "P_Strassen x y ?z n lvl ?H =
        Inr (fill ?H (baseAddr ?z) (window ?z n)
               (\<lambda>r c. matprod (rdv ?H x) (rdv ?H y) n (r - row0 ?z) (c - col0 ?z)))"
    using assms(2-4,7,8) holds_valid [OF hx] holds_valid [OF hy] holds_valid [OF hz]
    by (intro REC) (simp_all add: holds_def separate_def)
  also have "fill ?H (baseAddr ?z) (window ?z n)
               (\<lambda>r c. matprod (rdv ?H x) (rdv ?H y) n (r - row0 ?z) (c - col0 ?z))
           = heapT h n (G(k := matprod X Y n))"
  proof -
    have "matprod (rdv ?H x) (rdv ?H y) n r c = matprod X Y n r c"
      if "0 \<le> r" "r < n" "0 \<le> c" "c < n" for r c
      using hx hy that by (intro matprod_cong) (simp_all add: holds_def)
    then show ?thesis using assms(3,4) by (simp add: fill_heapT_tmp window_vw)
  qed
  finally show ?thesis .
qed

section \<open>The recursive case\<close>

lemma PS_step_trace:
  fixes h :: "('a::ring) heap"
  assumes REC: "\<And>x y z m (H :: 'a heap).
        wf_heap H \<Longrightarrow> holds H x m (rdv H x) \<Longrightarrow> holds H y m (rdv H y) \<Longrightarrow> holds H z m (rdv H z)
        \<Longrightarrow> 0 \<le> m \<Longrightarrow> separate z x m \<Longrightarrow> separate z y m
        \<Longrightarrow> P_Strassen x y z m (level + 1) H =
            Inr (fill H (baseAddr z) (window z m)
                   (\<lambda>r c. matprod (rdv H x) (rdv H y) m (r - row0 z) (c - col0 z)))"
    and wf: "wf_heap h"
    and ha: "holds h a sz (rdv h a)" and hb: "holds h b sz (rdv h b)" and hc: "holds h c sz (rdv h c)"
    and sz: "0 \<le> sz" "2 dvd sz" and lv: "level \<le> 1" and nd: "n = tdiv sz 2"
  shows "(P_Strassen a b c sz level h =
         Inr (fill h (baseAddr c) (window c sz)
                (\<lambda>r c'. matprod (rdv h a) (rdv h b) sz (r - row0 c) (c' - col0 c))))
     \<and> (\<exists>s p hA hB hs h1 h2 h3 h4 h5 h6 h7 hF h'.
         quadrants h a n = Inr (q11 a n, q12 a n, q21 a n, q22 a n)
       \<and> quadrants h b n = Inr (q11 b n, q12 b n, q21 b n, q22 b n)
       \<and> quadrants h c n = Inr (q11 c n, q12 c n, q21 c n, q22 c n)
       \<and> new_temps 10 n h = Inr (s, hA)
       \<and> new_temps 7 n hA = Inr (p, hB)
       \<and> length s = 10
       \<and> length p = 7
       \<and> compute_s (q11 a n, q12 a n, q21 a n, q22 a n) (q11 b n, q12 b n, q21 b n, q22 b n) s n hB = Inr hs
       \<and> (\<forall>i j. 0 \<le> i \<and> i < n \<and> 0 \<le> j \<and> j < n \<longrightarrow>
             rdv hs (s ! 0) i j = rdv h (q12 b n) i j - rdv h (q22 b n) i j
           \<and> rdv hs (s ! 1) i j = rdv h (q11 a n) i j + rdv h (q12 a n) i j
           \<and> rdv hs (s ! 2) i j = rdv h (q21 a n) i j + rdv h (q22 a n) i j
           \<and> rdv hs (s ! 3) i j = rdv h (q21 b n) i j - rdv h (q11 b n) i j
           \<and> rdv hs (s ! 4) i j = rdv h (q11 a n) i j + rdv h (q22 a n) i j
           \<and> rdv hs (s ! 5) i j = rdv h (q11 b n) i j + rdv h (q22 b n) i j
           \<and> rdv hs (s ! 6) i j = rdv h (q12 a n) i j - rdv h (q22 a n) i j
           \<and> rdv hs (s ! 7) i j = rdv h (q21 b n) i j + rdv h (q22 b n) i j
           \<and> rdv hs (s ! 8) i j = rdv h (q11 a n) i j - rdv h (q21 a n) i j
           \<and> rdv hs (s ! 9) i j = rdv h (q11 b n) i j + rdv h (q12 b n) i j)
       \<and> P_Strassen_rel (q11 a n, s ! 0, p ! 0, n, level + 1, hs) (a, b, c, sz, level, h)
       \<and> (\<forall>x y z m l (H :: 'a heap). P_Strassen_rel (x, y, z, m, l, H) (a, b, c, sz, level, h) \<longrightarrow>
             m = n \<and> l = level + 1 \<and>
             (x, y, z) \<in> {(q11 a n, s ! 0, p ! 0), (s ! 1, q22 b n, p ! 1), (s ! 2, q11 b n, p ! 2),
                          (q22 a n, s ! 3, p ! 3), (s ! 4, s ! 5, p ! 4), (s ! 6, s ! 7, p ! 5),
                          (s ! 8, s ! 9, p ! 6)})
       \<and> P_Strassen (q11 a n) (s ! 0) (p ! 0) n (level + 1) hs = Inr h1
       \<and> P_Strassen (s ! 1) (q22 b n) (p ! 1) n (level + 1) h1 = Inr h2
       \<and> P_Strassen (s ! 2) (q11 b n) (p ! 2) n (level + 1) h2 = Inr h3
       \<and> P_Strassen (q22 a n) (s ! 3) (p ! 3) n (level + 1) h3 = Inr h4
       \<and> P_Strassen (s ! 4) (s ! 5) (p ! 4) n (level + 1) h4 = Inr h5
       \<and> P_Strassen (s ! 6) (s ! 7) (p ! 5) n (level + 1) h5 = Inr h6
       \<and> P_Strassen (s ! 8) (s ! 9) (p ! 6) n (level + 1) h6 = Inr h7
       \<and> (\<forall>i j. 0 \<le> i \<and> i < n \<and> 0 \<le> j \<and> j < n \<longrightarrow>
             rdv h7 (p ! 0) i j = matprod (rdv h (q11 a n)) (rdv hs (s ! 0)) n i j
           \<and> rdv h7 (p ! 1) i j = matprod (rdv hs (s ! 1)) (rdv h (q22 b n)) n i j
           \<and> rdv h7 (p ! 2) i j = matprod (rdv hs (s ! 2)) (rdv h (q11 b n)) n i j
           \<and> rdv h7 (p ! 3) i j = matprod (rdv h (q22 a n)) (rdv hs (s ! 3)) n i j
           \<and> rdv h7 (p ! 4) i j = matprod (rdv hs (s ! 4)) (rdv hs (s ! 5)) n i j
           \<and> rdv h7 (p ! 5) i j = matprod (rdv hs (s ! 6)) (rdv hs (s ! 7)) n i j
           \<and> rdv h7 (p ! 6) i j = matprod (rdv hs (s ! 8)) (rdv hs (s ! 9)) n i j)
       \<and> combine (q11 c n, q12 c n, q21 c n, q22 c n) p n h7 = Inr hF
       \<and> h' = take (length h) hF
       \<and> P_Strassen a b c sz level h = Inr h'
       \<and> (\<forall>i j. 0 \<le> i \<and> i < n \<and> 0 \<le> j \<and> j < n \<longrightarrow>
             rdv h' (q11 c n) i j = rdv h7 (p ! 4) i j + rdv h7 (p ! 3) i j - rdv h7 (p ! 1) i j + rdv h7 (p ! 5) i j
           \<and> rdv h' (q12 c n) i j = rdv h7 (p ! 0) i j + rdv h7 (p ! 1) i j
           \<and> rdv h' (q21 c n) i j = rdv h7 (p ! 2) i j + rdv h7 (p ! 3) i j
           \<and> rdv h' (q22 c n) i j = rdv h7 (p ! 4) i j + rdv h7 (p ! 0) i j - rdv h7 (p ! 2) i j - rdv h7 (p ! 6) i j))"
proof -
  have n_def: "n = sz div 2" using nd tdiv_2 [OF sz(2)] by simp
  have sz2: "sz = 2 * n" and n0: "0 \<le> n" using sz by (auto simp: n_def)
  have td: "tdiv sz 2 = n" using tdiv_2 [OF sz(2)] by (simp add: n_def)
  have c1: "sz \<noteq> 1" using sz(2) by auto
  have c2: "tmod sz 2 = 0" using tmod_2 [of sz] sz(2) by simp
  have c3: "\<not> 1 < level" using lv by simp
  define A where "A = rdv h a"
  define B where "B = rdv h b"
  define A12 where "A12 = (\<lambda>i j. A i (j + n))"
  define A21 where "A21 = (\<lambda>i j. A (i + n) j)"
  define A22 where "A22 = (\<lambda>i j. A (i + n) (j + n))"
  define B12 where "B12 = (\<lambda>i j. B i (j + n))"
  define B21 where "B21 = (\<lambda>i j. B (i + n) j)"
  define B22 where "B22 = (\<lambda>i j. B (i + n) (j + n))"
  define a11 where "a11 = View a 0 0 n n"
  define a12 where "a12 = View a 0 n n n"
  define a21 where "a21 = View a n 0 n n"
  define a22 where "a22 = View a n n n n"
  define b11 where "b11 = View b 0 0 n n"
  define b12 where "b12 = View b 0 n n n"
  define b21 where "b21 = View b n 0 n n"
  define b22 where "b22 = View b n n n n"
  define c11 where "c11 = View c 0 0 n n"
  define c12 where "c12 = View c 0 n n n"
  define c21 where "c21 = View c n 0 n n"
  define c22 where "c22 = View c n n n n"
  note qdefs = a11_def a12_def a21_def a22_def b11_def b12_def b21_def b22_def
    c11_def c12_def c21_def c22_def
  have hA: "holds h a11 n A" "holds h a12 n A12" "holds h a21 n A21" "holds h a22 n A22"
    using holds_sub [OF ha, of 0 0 n] holds_sub [OF ha, of 0 n n]
      holds_sub [OF ha, of n 0 n] holds_sub [OF ha, of n n n] n0 sz2
    by (simp_all add: qdefs A_def A12_def A21_def A22_def)
  have hB: "holds h b11 n B" "holds h b12 n B12" "holds h b21 n B21" "holds h b22 n B22"
    using holds_sub [OF hb, of 0 0 n] holds_sub [OF hb, of 0 n n]
      holds_sub [OF hb, of n 0 n] holds_sub [OF hb, of n n n] n0 sz2
    by (simp_all add: qdefs B_def B12_def B21_def B22_def)
  have vC: "holds h c11 n (rdv h c11)" "holds h c12 n (rdv h c12)"
           "holds h c21 n (rdv h c21)" "holds h c22 n (rdv h c22)"
    using holds_sub [OF hc, of 0 0 n] holds_sub [OF hc, of 0 n n]
      holds_sub [OF hc, of n 0 n] holds_sub [OF hc, of n n n] n0 sz2
    by (simp_all add: qdefs holds_def)
  have bL: "baseAddr a < length h" "baseAddr b < length h" "baseAddr c < length h"
    using valid_window [of h a] valid_window [of h b] valid_window [of h c] ha hb hc
    by (simp_all add: holds_def)
  have q1: "quadrants h a n = Inr (a11, a12, a21, a22)"
    unfolding qdefs using ha n0 sz2 by (intro quadrants_ok) (simp_all add: holds_def)
  have q2: "quadrants h b n = Inr (b11, b12, b21, b22)"
    unfolding qdefs using hb n0 sz2 by (intro quadrants_ok) (simp_all add: holds_def)
  have q3: "quadrants h c n = Inr (c11, c12, c21, c22)"
    unfolding qdefs using hc n0 sz2 by (intro quadrants_ok) (simp_all add: holds_def)
  define S0 where "S0 = (\<lambda>i j. B12 i j - B22 i j)"
  define S1 where "S1 = (\<lambda>i j. A i j + A12 i j)"
  define S2 where "S2 = (\<lambda>i j. A21 i j + A22 i j)"
  define S3 where "S3 = (\<lambda>i j. B21 i j - B i j)"
  define S4 where "S4 = (\<lambda>i j. A i j + A22 i j)"
  define S5 where "S5 = (\<lambda>i j. B i j + B22 i j)"
  define S6 where "S6 = (\<lambda>i j. A12 i j - A22 i j)"
  define S7 where "S7 = (\<lambda>i j. B21 i j + B22 i j)"
  define S8 where "S8 = (\<lambda>i j. A i j - A21 i j)"
  define S9 where "S9 = (\<lambda>i j. B i j + B12 i j)"
  define P0 where "P0 = matprod A S0 n"
  define P1 where "P1 = matprod S1 B22 n"
  define P2 where "P2 = matprod S2 B n"
  define P3 where "P3 = matprod A22 S3 n"
  define P4 where "P4 = matprod S4 S5 n"
  define P5 where "P5 = matprod S6 S7 n"
  define P6 where "P6 = matprod S8 S9 n"
  define Vals where
    "Vals = (\<lambda>k. [S0, S1, S2, S3, S4, S5, S6, S7, S8, S9, P0, P1, P2, P3, P4, P5, P6] ! k)"
  define Gst where "Gst m = (\<lambda>k. if k < m then Vals k else (\<lambda>r c. 0))" for m :: nat
  have V: "Vals 0 = S0" "Vals 1 = S1" "Vals 2 = S2" "Vals 3 = S3" "Vals 4 = S4" "Vals 5 = S5"
    "Vals 6 = S6" "Vals 7 = S7" "Vals 8 = S8" "Vals 9 = S9" "Vals 10 = P0" "Vals 11 = P1"
    "Vals 12 = P2" "Vals 13 = P3" "Vals 14 = P4" "Vals 15 = P5" "Vals 16 = P6"
    by (simp_all add: Vals_def)
  have up: "(Gst k)(k := Vals k) = Gst (k + 1)" for k
    by (auto simp: Gst_def fun_eq_iff)
  have hT: "holds (heapT h' n (Gst m)) (vw (length h' + j) n) n (Vals j)"
    if "j < m" "j < 17" for m j and h' :: "'a heap"
    using holds_tmp [of j n h' "Gst m"] that n0 by (simp add: Gst_def)
  define sv where "sv = map (\<lambda>i. vw (length h + i) n) [0..<10]"
  define pv where "pv = map (\<lambda>i. vw (length h + 10 + i) n) [0..<7]"
  have svn: "sv ! 0 = vw (length h + 0) n" "sv ! 1 = vw (length h + 1) n"
    "sv ! 2 = vw (length h + 2) n" "sv ! 3 = vw (length h + 3) n" "sv ! 4 = vw (length h + 4) n"
    "sv ! 5 = vw (length h + 5) n" "sv ! 6 = vw (length h + 6) n" "sv ! 7 = vw (length h + 7) n"
    "sv ! 8 = vw (length h + 8) n" "sv ! 9 = vw (length h + 9) n"
    by (simp_all add: sv_def del: upt_Suc)
  have pvn: "pv ! 0 = vw (length h + 10) n" "pv ! 1 = vw (length h + 11) n"
    "pv ! 2 = vw (length h + 12) n" "pv ! 3 = vw (length h + 13) n" "pv ! 4 = vw (length h + 14) n"
    "pv ! 5 = vw (length h + 15) n" "pv ! 6 = vw (length h + 16) n"
    by (simp_all add: pv_def ac_simps del: upt_Suc)
  have t1: "new_temps 10 n h = Inr (sv, h @ replicate 10 (mat n (\<lambda>r c. 0)))"
    using new_temps_ok [OF n0, of 10 h] by (simp add: sv_def)
  have G0: "Gst 0 = (\<lambda>k r c. 0)" by (simp add: Gst_def)
  have t2: "new_temps 7 n (h @ replicate 10 (mat n (\<lambda>r c. 0))) = Inr (pv, heapT h n (Gst 0))"
    using new_temps_ok [OF n0, of 7 "h @ replicate 10 (mat n (\<lambda>r c. 0))"]
    unfolding heapT_fresh G0 by (simp add: pv_def)
  have bq: "baseAddr a11 < length h" "baseAddr a12 < length h" "baseAddr a21 < length h"
    "baseAddr a22 < length h" "baseAddr b11 < length h" "baseAddr b12 < length h"
    "baseAddr b21 < length h" "baseAddr b22 < length h"
    using bL by (simp_all add: qdefs)
  have Sstep: "for_ij n (assign2 (vw (length h + k) n) f x y) (heapT h n (Gst k)) =
               Inr (heapT h n (Gst (k + 1)))"
    if "k < 17" "holds (heapT h n (Gst k)) x n X" "holds (heapT h n (Gst k)) y n Y"
      "baseAddr x \<noteq> length h + k" "baseAddr y \<noteq> length h + k"
      "Vals k = (\<lambda>i j. f (X i j) (Y i j))" for k f x y X Y
    using assign2_tmp [OF wf n0 that(1-5), of f] up [of k] that(6) by (simp del: One_nat_def)
  have Pstep: "P_Strassen x y (vw (length h + k) n) n (level + 1) (heapT h n (Gst k)) =
               Inr (heapT h n (Gst (k + 1)))"
    if "k < 17" "holds (heapT h n (Gst k)) x n X" "holds (heapT h n (Gst k)) y n Y"
      "baseAddr x \<noteq> length h + k" "baseAddr y \<noteq> length h + k"
      "Vals k = matprod X Y n" for k x y X Y
    using PS_tmp [of "level + 1", OF REC wf n0 that(1-5)] up [of k] that(6) by (simp del: One_nat_def)
  note ho = holds_old
  have e0: "for_ij n (assign2 (sv ! 0) (-) b12 b22) (heapT h n (Gst 0)) = Inr (heapT h n (Gst 1))"
    unfolding svn using Sstep [of 0 b12 B12 b22 B22 "(-)"] hB [THEN ho] bq by (simp add: V S0_def del: One_nat_def)
  have e1: "for_ij n (assign2 (sv ! 1) (+) a11 a12) (heapT h n (Gst 1)) = Inr (heapT h n (Gst 2))"
    unfolding svn using Sstep [of 1 a11 A a12 A12 "(+)"] hA [THEN ho] bq by (simp add: V S1_def del: One_nat_def)
  have e2: "for_ij n (assign2 (sv ! 2) (+) a21 a22) (heapT h n (Gst 2)) = Inr (heapT h n (Gst 3))"
    unfolding svn using Sstep [of 2 a21 A21 a22 A22 "(+)"] hA [THEN ho] bq by (simp add: V S2_def del: One_nat_def)
  have e3: "for_ij n (assign2 (sv ! 3) (-) b21 b11) (heapT h n (Gst 3)) = Inr (heapT h n (Gst 4))"
    unfolding svn using Sstep [of 3 b21 B21 b11 B "(-)"] hB [THEN ho] bq by (simp add: V S3_def del: One_nat_def)
  have e4: "for_ij n (assign2 (sv ! 4) (+) a11 a22) (heapT h n (Gst 4)) = Inr (heapT h n (Gst 5))"
    unfolding svn using Sstep [of 4 a11 A a22 A22 "(+)"] hA [THEN ho] bq by (simp add: V S4_def del: One_nat_def)
  have e5: "for_ij n (assign2 (sv ! 5) (+) b11 b22) (heapT h n (Gst 5)) = Inr (heapT h n (Gst 6))"
    unfolding svn using Sstep [of 5 b11 B b22 B22 "(+)"] hB [THEN ho] bq by (simp add: V S5_def del: One_nat_def)
  have e6: "for_ij n (assign2 (sv ! 6) (-) a12 a22) (heapT h n (Gst 6)) = Inr (heapT h n (Gst 7))"
    unfolding svn using Sstep [of 6 a12 A12 a22 A22 "(-)"] hA [THEN ho] bq by (simp add: V S6_def del: One_nat_def)
  have e7: "for_ij n (assign2 (sv ! 7) (+) b21 b22) (heapT h n (Gst 7)) = Inr (heapT h n (Gst 8))"
    unfolding svn using Sstep [of 7 b21 B21 b22 B22 "(+)"] hB [THEN ho] bq by (simp add: V S7_def del: One_nat_def)
  have e8: "for_ij n (assign2 (sv ! 8) (-) a11 a21) (heapT h n (Gst 8)) = Inr (heapT h n (Gst 9))"
    unfolding svn using Sstep [of 8 a11 A a21 A21 "(-)"] hA [THEN ho] bq by (simp add: V S8_def del: One_nat_def)
  have e9: "for_ij n (assign2 (sv ! 9) (+) b11 b12) (heapT h n (Gst 9)) = Inr (heapT h n (Gst 10))"
    unfolding svn using Sstep [of 9 b11 B b12 B12 "(+)"] hB [THEN ho] bq by (simp add: V S9_def del: One_nat_def)
  have cs: "compute_s (a11, a12, a21, a22) (b11, b12, b21, b22) sv n (heapT h n (Gst 0))
            = Inr (heapT h n (Gst 10))"
    unfolding compute_s_def prod.case e0 bindE_Inr e1 e2 e3 e4 e5 e6 e7 e8 e9 by (rule refl)
  have r0: "P_Strassen a11 (sv ! 0) (pv ! 0) n (level + 1) (heapT h n (Gst 10))
            = Inr (heapT h n (Gst 11))"
    unfolding svn pvn
    using Pstep [of 10 a11 A "vw (length h + 0) n" S0] hA [THEN ho] hT [of 0 10 h] bq
    by (simp add: V P0_def del: One_nat_def)
  have r1: "P_Strassen (sv ! 1) b22 (pv ! 1) n (level + 1) (heapT h n (Gst 11))
            = Inr (heapT h n (Gst 12))"
    unfolding svn pvn
    using Pstep [of 11 "vw (length h + 1) n" S1 b22 B22] hB [THEN ho] hT [of 1 11 h] bq
    by (simp add: V P1_def del: One_nat_def)
  have r2: "P_Strassen (sv ! 2) b11 (pv ! 2) n (level + 1) (heapT h n (Gst 12))
            = Inr (heapT h n (Gst 13))"
    unfolding svn pvn
    using Pstep [of 12 "vw (length h + 2) n" S2 b11 B] hB [THEN ho] hT [of 2 12 h] bq
    by (simp add: V P2_def del: One_nat_def)
  have r3: "P_Strassen a22 (sv ! 3) (pv ! 3) n (level + 1) (heapT h n (Gst 13))
            = Inr (heapT h n (Gst 14))"
    unfolding svn pvn
    using Pstep [of 13 a22 A22 "vw (length h + 3) n" S3] hA [THEN ho] hT [of 3 13 h] bq
    by (simp add: V P3_def del: One_nat_def)
  have r4: "P_Strassen (sv ! 4) (sv ! 5) (pv ! 4) n (level + 1) (heapT h n (Gst 14))
            = Inr (heapT h n (Gst 15))"
    unfolding svn pvn
    using Pstep [of 14 "vw (length h + 4) n" S4 "vw (length h + 5) n" S5]
      hT [of 4 14 h] hT [of 5 14 h]
    by (simp add: V P4_def del: One_nat_def)
  have r5: "P_Strassen (sv ! 6) (sv ! 7) (pv ! 5) n (level + 1) (heapT h n (Gst 15))
            = Inr (heapT h n (Gst 16))"
    unfolding svn pvn
    using Pstep [of 15 "vw (length h + 6) n" S6 "vw (length h + 7) n" S7]
      hT [of 6 15 h] hT [of 7 15 h]
    by (simp add: V P5_def del: One_nat_def)
  have r6: "P_Strassen (sv ! 8) (sv ! 9) (pv ! 6) n (level + 1) (heapT h n (Gst 16))
            = Inr (heapT h n (Gst 17))"
    unfolding svn pvn
    using Pstep [of 16 "vw (length h + 8) n" S8 "vw (length h + 9) n" S9]
      hT [of 8 16 h] hT [of 9 16 h]
    by (simp add: V P6_def del: One_nat_def)
  define F11 where "F11 = (\<lambda>r c'. P4 (r - row0 c11) (c' - col0 c11) + P3 (r - row0 c11) (c' - col0 c11)
                               - P1 (r - row0 c11) (c' - col0 c11) + P5 (r - row0 c11) (c' - col0 c11))"
  define F12 where "F12 = (\<lambda>r c'. P0 (r - row0 c12) (c' - col0 c12) + P1 (r - row0 c12) (c' - col0 c12))"
  define F21 where "F21 = (\<lambda>r c'. P2 (r - row0 c21) (c' - col0 c21) + P3 (r - row0 c21) (c' - col0 c21))"
  define F22 where "F22 = (\<lambda>r c'. P4 (r - row0 c22) (c' - col0 c22) + P0 (r - row0 c22) (c' - col0 c22)
                               - P2 (r - row0 c22) (c' - col0 c22) - P6 (r - row0 c22) (c' - col0 c22))"
  define h1 where "h1 = fill h (baseAddr c11) (window c11 n) F11"
  define h2 where "h2 = fill h1 (baseAddr c12) (window c12 n) F12"
  define h3 where "h3 = fill h2 (baseAddr c21) (window c21 n) F21"
  define h4 where "h4 = fill h3 (baseAddr c22) (window c22 n) F22"
  have len: "length h1 = length h" "length h2 = length h" "length h3 = length h" "length h4 = length h"
    by (simp_all add: h1_def h2_def h3_def h4_def)
  have wfs: "wf_heap h1" "wf_heap h2" "wf_heap h3"
    using wf by (simp_all add: h1_def h2_def h3_def)
  have vs: "valid h c11 \<and> n \<le> extRows h c11 \<and> n \<le> extCols h c11"
    "valid h1 c12 \<and> n \<le> extRows h1 c12 \<and> n \<le> extCols h1 c12"
    "valid h2 c21 \<and> n \<le> extRows h2 c21 \<and> n \<le> extCols h2 c21"
    "valid h3 c22 \<and> n \<le> extRows h3 c22 \<and> n \<le> extCols h3 c22"
    using vC [THEN holds_valid] by (simp_all add: h1_def h2_def h3_def)
  have k1: "for_ij n (assign4 c11 (\<lambda>t u v q. t + u - v + q) (pv ! 4) (pv ! 3) (pv ! 1) (pv ! 5))
              (heapT h n (Gst 17)) = Inr (heapT h1 n (Gst 17))"
    unfolding pvn h1_def F11_def
    using assign4_old [OF wf n0, of c11 "Gst 17" "vw (length h + 14) n" P4 "vw (length h + 13) n" P3
        "vw (length h + 11) n" P1 "vw (length h + 15) n" P5 "\<lambda>t u v q. t + u - v + q"]
      vs(1) hT [of 14 17 h] hT [of 13 17 h] hT [of 11 17 h] hT [of 15 17 h]
    by (simp add: V del: One_nat_def)
  have k2: "for_ij n (assign2 c12 (+) (pv ! 0) (pv ! 1)) (heapT h1 n (Gst 17))
            = Inr (heapT h2 n (Gst 17))"
    unfolding pvn h2_def F12_def
    using assign2_old [OF wfs(1) n0, of c12 "Gst 17" "vw (length h + 10) n" P0
        "vw (length h + 11) n" P1 "(+)"]
      vs(2) hT [of 10 17 h1] hT [of 11 17 h1]
    by (simp add: V len del: One_nat_def)
  have k3: "for_ij n (assign2 c21 (+) (pv ! 2) (pv ! 3)) (heapT h2 n (Gst 17))
            = Inr (heapT h3 n (Gst 17))"
    unfolding pvn h3_def F21_def
    using assign2_old [OF wfs(2) n0, of c21 "Gst 17" "vw (length h + 12) n" P2
        "vw (length h + 13) n" P3 "(+)"]
      vs(3) hT [of 12 17 h2] hT [of 13 17 h2]
    by (simp add: V len del: One_nat_def)
  have k4: "for_ij n (assign4 c22 (\<lambda>t u v q. t + u - v - q) (pv ! 4) (pv ! 0) (pv ! 2) (pv ! 6))
              (heapT h3 n (Gst 17)) = Inr (heapT h4 n (Gst 17))"
    unfolding pvn h4_def F22_def
    using assign4_old [OF wfs(3) n0, of c22 "Gst 17" "vw (length h + 14) n" P4 "vw (length h + 10) n" P0
        "vw (length h + 12) n" P2 "vw (length h + 16) n" P6 "\<lambda>t u v q. t + u - v - q"]
      vs(4) hT [of 14 17 h3] hT [of 10 17 h3] hT [of 12 17 h3] hT [of 16 17 h3]
    by (simp add: V len del: One_nat_def)
  have cb: "combine (c11, c12, c21, c22) pv n (heapT h n (Gst 17)) = Inr (heapT h4 n (Gst 17))"
    unfolding combine_def prod.case k1 bindE_Inr k2 k3 k4 by (rule refl)
  have run: "P_Strassen a b c sz level h = Inr (take (length h) (heapT h4 n (Gst 17)))"
    by (rule P_Strassen_unfold [OF c1 c2 c3 td q1 q2 q3 t1 t2 cs r0 r1 r2 r3 r4 r5 r6 cb])
  have tk: "take (length h) (heapT h4 n (Gst 17)) = h4"
    using take_heapT [of h4 n "Gst 17"] len by simp
  have bc: "baseAddr c11 = baseAddr c" "baseAddr c12 = baseAddr c" "baseAddr c21 = baseAddr c"
    "baseAddr c22 = baseAddr c"
    by (simp_all add: qdefs)
  have h4eq: "h4 = fill h (baseAddr c)
       (\<lambda>r c'. ((window c11 n r c' \<or> window c12 n r c') \<or> window c21 n r c') \<or> window c22 n r c')
       (\<lambda>r c'. if window c22 n r c' then F22 r c'
                else if window c21 n r c' then F21 r c'
                else if window c12 n r c' then F12 r c' else F11 r c')"
    unfolding h4_def h3_def h2_def h1_def bc fill_fill by (rule refl)
  have fin: "h4 = fill h (baseAddr c) (window c sz)
                    (\<lambda>r c'. matprod A B sz (r - row0 c) (c' - col0 c))"
    unfolding h4eq
  proof (rule fill_cong [OF wf])
    fix r c'
    show "(((window c11 n r c' \<or> window c12 n r c') \<or> window c21 n r c') \<or> window c22 n r c')
          = window c sz r c'"
      using n0 by (auto simp: window_def qdefs sz2)
  next
    fix r c'
    assume W: "((window c11 n r c' \<or> window c12 n r c') \<or> window c21 n r c') \<or> window c22 n r c'"
    define i where "i = r - row0 c"
    define j where "j = c' - col0 c"
    note pd = P0_def P1_def P2_def P3_def P4_def P5_def P6_def
      S0_def S1_def S2_def S3_def S4_def S5_def S6_def S7_def S8_def S9_def
      A12_def A21_def A22_def B12_def B21_def B22_def
    have f11: "F11 r c' = matprod A B sz i j"
      using strassen_identity(1) [OF n0, of A B i j]
      by (simp add: F11_def pd qdefs sz2 i_def j_def)
    have f12: "F12 r c' = matprod A B sz i j"
      using strassen_identity(2) [OF n0, of A B i "j - n"]
      by (simp add: F12_def pd qdefs sz2 i_def j_def algebra_simps)
    have f21: "F21 r c' = matprod A B sz i j"
      using strassen_identity(3) [OF n0, of A B "i - n" j]
      by (simp add: F21_def pd qdefs sz2 i_def j_def algebra_simps)
    have f22: "F22 r c' = matprod A B sz i j"
      using strassen_identity(4) [OF n0, of A B "i - n" "j - n"]
      by (simp add: F22_def pd qdefs sz2 i_def j_def algebra_simps)
    show "(if window c22 n r c' then F22 r c'
           else if window c21 n r c' then F21 r c'
           else if window c12 n r c' then F12 r c' else F11 r c')
          = matprod A B sz (r - row0 c) (c' - col0 c)"
      by (simp add: f11 f12 f21 f22 i_def j_def)
  qed
  have res: "P_Strassen a b c sz level h =
         Inr (fill h (baseAddr c) (window c sz)
                (\<lambda>r c'. matprod (rdv h a) (rdv h b) sz (r - row0 c) (c' - col0 c)))"
    using run tk fin by (simp add: A_def B_def)
  have qv: "q11 a n = a11" "q12 a n = a12" "q21 a n = a21" "q22 a n = a22"
    "q11 b n = b11" "q12 b n = b12" "q21 b n = b21" "q22 b n = b22"
    "q11 c n = c11" "q12 c n = c12" "q21 c n = c21" "q22 c n = c22"
    by (simp_all add: q11_def q12_def q21_def q22_def qdefs)
  have lens: "length sv = 10" "length pv = 7" by (simp_all add: sv_def pv_def)
  have rT: "rdv (heapT h n (Gst m)) (vw (length h + k) n) i j = Vals k i j"
    if "k < m" "k < 17" "0 \<le> i" "i < n" "0 \<le> j" "j < n" for m k i j
    using rdv_vw_tmp [of k i n j h "Gst m"] that by (simp add: Gst_def)
  have rA: "rdv h a11 i j = A i j" "rdv h a12 i j = A12 i j" "rdv h a21 i j = A21 i j"
    "rdv h a22 i j = A22 i j" "rdv h b11 i j = B i j" "rdv h b12 i j = B12 i j"
    "rdv h b21 i j = B21 i j" "rdv h b22 i j = B22 i j" for i j
    by (simp_all add: qdefs rdv_View A_def B_def A12_def A21_def A22_def B12_def B21_def B22_def)
  have rS': "rdv (heapT h n (Gst 10)) (sv ! 0) i j = S0 i j" "rdv (heapT h n (Gst 10)) (sv ! 1) i j = S1 i j"
    "rdv (heapT h n (Gst 10)) (sv ! 2) i j = S2 i j" "rdv (heapT h n (Gst 10)) (sv ! 3) i j = S3 i j"
    "rdv (heapT h n (Gst 10)) (sv ! 4) i j = S4 i j" "rdv (heapT h n (Gst 10)) (sv ! 5) i j = S5 i j"
    "rdv (heapT h n (Gst 10)) (sv ! 6) i j = S6 i j" "rdv (heapT h n (Gst 10)) (sv ! 7) i j = S7 i j"
    "rdv (heapT h n (Gst 10)) (sv ! 8) i j = S8 i j" "rdv (heapT h n (Gst 10)) (sv ! 9) i j = S9 i j"
    if "0 \<le> i" "i < n" "0 \<le> j" "j < n" for i j
    unfolding svn
    using that rT [of 0 10 i j] rT [of 1 10 i j] rT [of 2 10 i j] rT [of 3 10 i j] rT [of 4 10 i j]
      rT [of 5 10 i j] rT [of 6 10 i j] rT [of 7 10 i j] rT [of 8 10 i j] rT [of 9 10 i j]
    by (simp_all add: V del: One_nat_def)
  have rS: "rdv (heapT h n (Gst 10)) (sv ! 0) i j = rdv h (q12 b n) i j - rdv h (q22 b n) i j"
    "rdv (heapT h n (Gst 10)) (sv ! 1) i j = rdv h (q11 a n) i j + rdv h (q12 a n) i j"
    "rdv (heapT h n (Gst 10)) (sv ! 2) i j = rdv h (q21 a n) i j + rdv h (q22 a n) i j"
    "rdv (heapT h n (Gst 10)) (sv ! 3) i j = rdv h (q21 b n) i j - rdv h (q11 b n) i j"
    "rdv (heapT h n (Gst 10)) (sv ! 4) i j = rdv h (q11 a n) i j + rdv h (q22 a n) i j"
    "rdv (heapT h n (Gst 10)) (sv ! 5) i j = rdv h (q11 b n) i j + rdv h (q22 b n) i j"
    "rdv (heapT h n (Gst 10)) (sv ! 6) i j = rdv h (q12 a n) i j - rdv h (q22 a n) i j"
    "rdv (heapT h n (Gst 10)) (sv ! 7) i j = rdv h (q21 b n) i j + rdv h (q22 b n) i j"
    "rdv (heapT h n (Gst 10)) (sv ! 8) i j = rdv h (q11 a n) i j - rdv h (q21 a n) i j"
    "rdv (heapT h n (Gst 10)) (sv ! 9) i j = rdv h (q11 b n) i j + rdv h (q12 b n) i j"
    if ij: "0 \<le> i" "i < n" "0 \<le> j" "j < n" for i j
    unfolding rS' [OF ij] qv rA
    by (simp_all add: S0_def S1_def S2_def S3_def S4_def S5_def S6_def S7_def S8_def S9_def)
  have rP': "rdv (heapT h n (Gst 17)) (pv ! 0) i j = P0 i j" "rdv (heapT h n (Gst 17)) (pv ! 1) i j = P1 i j"
    "rdv (heapT h n (Gst 17)) (pv ! 2) i j = P2 i j" "rdv (heapT h n (Gst 17)) (pv ! 3) i j = P3 i j"
    "rdv (heapT h n (Gst 17)) (pv ! 4) i j = P4 i j" "rdv (heapT h n (Gst 17)) (pv ! 5) i j = P5 i j"
    "rdv (heapT h n (Gst 17)) (pv ! 6) i j = P6 i j"
    if "0 \<le> i" "i < n" "0 \<le> j" "j < n" for i j
    unfolding pvn
    using that rT [of 10 17 i j] rT [of 11 17 i j] rT [of 12 17 i j] rT [of 13 17 i j]
      rT [of 14 17 i j] rT [of 15 17 i j] rT [of 16 17 i j]
    by (simp_all add: V del: One_nat_def)
  have rP: "rdv (heapT h n (Gst 17)) (pv ! 0) i j = matprod (rdv h (q11 a n)) (rdv (heapT h n (Gst 10)) (sv ! 0)) n i j"
    "rdv (heapT h n (Gst 17)) (pv ! 1) i j = matprod (rdv (heapT h n (Gst 10)) (sv ! 1)) (rdv h (q22 b n)) n i j"
    "rdv (heapT h n (Gst 17)) (pv ! 2) i j = matprod (rdv (heapT h n (Gst 10)) (sv ! 2)) (rdv h (q11 b n)) n i j"
    "rdv (heapT h n (Gst 17)) (pv ! 3) i j = matprod (rdv h (q22 a n)) (rdv (heapT h n (Gst 10)) (sv ! 3)) n i j"
    "rdv (heapT h n (Gst 17)) (pv ! 4) i j = matprod (rdv (heapT h n (Gst 10)) (sv ! 4)) (rdv (heapT h n (Gst 10)) (sv ! 5)) n i j"
    "rdv (heapT h n (Gst 17)) (pv ! 5) i j = matprod (rdv (heapT h n (Gst 10)) (sv ! 6)) (rdv (heapT h n (Gst 10)) (sv ! 7)) n i j"
    "rdv (heapT h n (Gst 17)) (pv ! 6) i j = matprod (rdv (heapT h n (Gst 10)) (sv ! 8)) (rdv (heapT h n (Gst 10)) (sv ! 9)) n i j"
    if ij: "0 \<le> i" "i < n" "0 \<le> j" "j < n" for i j
  proof -
    have c: "matprod X Y n i j = matprod X' Y' n i j"
      if "\<And>k. 0 \<le> k \<Longrightarrow> k < n \<Longrightarrow> X i k = X' i k"
        and "\<And>k. 0 \<le> k \<Longrightarrow> k < n \<Longrightarrow> Y k j = Y' k j"
      for X Y X' Y' :: "int \<Rightarrow> int \<Rightarrow> 'a"
      using that by (rule matprod_cong)
    show "rdv (heapT h n (Gst 17)) (pv ! 0) i j = matprod (rdv h (q11 a n)) (rdv (heapT h n (Gst 10)) (sv ! 0)) n i j"
      "rdv (heapT h n (Gst 17)) (pv ! 1) i j = matprod (rdv (heapT h n (Gst 10)) (sv ! 1)) (rdv h (q22 b n)) n i j"
      "rdv (heapT h n (Gst 17)) (pv ! 2) i j = matprod (rdv (heapT h n (Gst 10)) (sv ! 2)) (rdv h (q11 b n)) n i j"
      "rdv (heapT h n (Gst 17)) (pv ! 3) i j = matprod (rdv h (q22 a n)) (rdv (heapT h n (Gst 10)) (sv ! 3)) n i j"
      "rdv (heapT h n (Gst 17)) (pv ! 4) i j = matprod (rdv (heapT h n (Gst 10)) (sv ! 4)) (rdv (heapT h n (Gst 10)) (sv ! 5)) n i j"
      "rdv (heapT h n (Gst 17)) (pv ! 5) i j = matprod (rdv (heapT h n (Gst 10)) (sv ! 6)) (rdv (heapT h n (Gst 10)) (sv ! 7)) n i j"
      "rdv (heapT h n (Gst 17)) (pv ! 6) i j = matprod (rdv (heapT h n (Gst 10)) (sv ! 8)) (rdv (heapT h n (Gst 10)) (sv ! 9)) n i j"
      unfolding rP' [OF ij] qv P0_def P1_def P2_def P3_def P4_def P5_def P6_def
      using ij by (auto intro!: c simp: rA rS' simp del: One_nat_def)
  qed
  have ibc: "inb h (baseAddr c) (row0 c + i) (col0 c + j)" if "0 \<le> i" "i < sz" "0 \<le> j" "j < sz" for i j
    using inb_valid [of h c i j] hc that by (simp add: holds_def add.commute)
  have rc: "rdv h4 c i j = matprod A B sz i j" if "0 \<le> i" "i < sz" "0 \<le> j" "j < sz" for i j
    unfolding fin rdv_def using ibc [OF that] wf that
    by (simp add: cell_fill window_def add.commute)
  note pd = P0_def P1_def P2_def P3_def P4_def P5_def P6_def
      S0_def S1_def S2_def S3_def S4_def S5_def S6_def S7_def S8_def S9_def
      A12_def A21_def A22_def B12_def B21_def B22_def
  have rC: "rdv h4 (q11 c n) i j = rdv (heapT h n (Gst 17)) (pv ! 4) i j + rdv (heapT h n (Gst 17)) (pv ! 3) i j - rdv (heapT h n (Gst 17)) (pv ! 1) i j + rdv (heapT h n (Gst 17)) (pv ! 5) i j"
    "rdv h4 (q12 c n) i j = rdv (heapT h n (Gst 17)) (pv ! 0) i j + rdv (heapT h n (Gst 17)) (pv ! 1) i j"
    "rdv h4 (q21 c n) i j = rdv (heapT h n (Gst 17)) (pv ! 2) i j + rdv (heapT h n (Gst 17)) (pv ! 3) i j"
    "rdv h4 (q22 c n) i j = rdv (heapT h n (Gst 17)) (pv ! 4) i j + rdv (heapT h n (Gst 17)) (pv ! 0) i j - rdv (heapT h n (Gst 17)) (pv ! 2) i j - rdv (heapT h n (Gst 17)) (pv ! 6) i j"
    if ij: "0 \<le> i" "i < n" "0 \<le> j" "j < n" for i j
  proof -
    have 1: "rdv h4 c11 i j = matprod A B sz i j" "rdv h4 c12 i j = matprod A B sz i (j + n)"
      "rdv h4 c21 i j = matprod A B sz (i + n) j" "rdv h4 c22 i j = matprod A B sz (i + n) (j + n)"
      using ij sz2 by (simp_all add: qdefs rdv_View rc)
    show "rdv h4 (q11 c n) i j = rdv (heapT h n (Gst 17)) (pv ! 4) i j + rdv (heapT h n (Gst 17)) (pv ! 3) i j - rdv (heapT h n (Gst 17)) (pv ! 1) i j + rdv (heapT h n (Gst 17)) (pv ! 5) i j"
      "rdv h4 (q12 c n) i j = rdv (heapT h n (Gst 17)) (pv ! 0) i j + rdv (heapT h n (Gst 17)) (pv ! 1) i j"
      "rdv h4 (q21 c n) i j = rdv (heapT h n (Gst 17)) (pv ! 2) i j + rdv (heapT h n (Gst 17)) (pv ! 3) i j"
      "rdv h4 (q22 c n) i j = rdv (heapT h n (Gst 17)) (pv ! 4) i j + rdv (heapT h n (Gst 17)) (pv ! 0) i j - rdv (heapT h n (Gst 17)) (pv ! 2) i j - rdv (heapT h n (Gst 17)) (pv ! 6) i j"
      unfolding rP' [OF ij] qv 1 sz2
      using strassen_identity [OF n0, of A B i j] by (simp_all add: pd)
  qed
  have q1': "quadrants h a n = Inr (q11 a n, q12 a n, q21 a n, q22 a n)"
    and q2': "quadrants h b n = Inr (q11 b n, q12 b n, q21 b n, q22 b n)"
    and q3': "quadrants h c n = Inr (q11 c n, q12 c n, q21 c n, q22 c n)"
    unfolding qv by (rule q1 q2 q3)+
  have fin': "P_Strassen a b c sz level h = Inr h4" using run tk by simp
  have tk0: "take (length h) (heapT h n (Gst 10)) = h" by simp
  have c2': "\<not> tmod sz 2 \<noteq> 0" using c2 by simp
  have rel1: "P_Strassen_rel (a11, sv ! 0, pv ! 0, n, level + 1, (heapT h n (Gst 10))) (a, b, c, sz, level, h)"
    using P_Strassen_rel.intros(1) [OF c1 c2' c3 q1 [unfolded nd] q2 [unfolded nd] q3 [unfolded nd]
        t1 [unfolded nd] refl t2 [unfolded nd] refl cs [unfolded nd] refl refl refl refl refl refl]
    unfolding nd .
  have relU: "(\<forall>x y z m l (H :: 'a heap). P_Strassen_rel (x, y, z, m, l, H) (a, b, c, sz, level, h) \<longrightarrow>
             m = n \<and> l = level + 1 \<and>
             (x, y, z) \<in> {(a11, sv ! 0, pv ! 0), (sv ! 1, b22, pv ! 1), (sv ! 2, b11, pv ! 2),
                          (a22, sv ! 3, pv ! 3), (sv ! 4, sv ! 5, pv ! 4), (sv ! 6, sv ! 7, pv ! 5),
                          (sv ! 8, sv ! 9, pv ! 6)})"
  proof (intro allI impI)
    fix x y z m l and H :: "'a heap"
    assume "P_Strassen_rel (x, y, z, m, l, H) (a, b, c, sz, level, h)"
    then show "m = n \<and> l = level + 1 \<and>
             (x, y, z) \<in> {(a11, sv ! 0, pv ! 0), (sv ! 1, b22, pv ! 1), (sv ! 2, b11, pv ! 2),
                          (a22, sv ! 3, pv ! 3), (sv ! 4, sv ! 5, pv ! 4), (sv ! 6, sv ! 7, pv ! 5),
                          (sv ! 8, sv ! 9, pv ! 6)}"
      by (cases rule: P_Strassen_rel.cases; clarsimp simp: td q1 q2 q3 t1 t2 simp del: One_nat_def)
  qed
  have Sall: "\<forall>i j. 0 \<le> i \<and> i < n \<and> 0 \<le> j \<and> j < n \<longrightarrow>
             rdv (heapT h n (Gst 10)) (sv ! 0) i j = rdv h (b12) i j - rdv h (b22) i j
           \<and> rdv (heapT h n (Gst 10)) (sv ! 1) i j = rdv h (a11) i j + rdv h (a12) i j
           \<and> rdv (heapT h n (Gst 10)) (sv ! 2) i j = rdv h (a21) i j + rdv h (a22) i j
           \<and> rdv (heapT h n (Gst 10)) (sv ! 3) i j = rdv h (b21) i j - rdv h (b11) i j
           \<and> rdv (heapT h n (Gst 10)) (sv ! 4) i j = rdv h (a11) i j + rdv h (a22) i j
           \<and> rdv (heapT h n (Gst 10)) (sv ! 5) i j = rdv h (b11) i j + rdv h (b22) i j
           \<and> rdv (heapT h n (Gst 10)) (sv ! 6) i j = rdv h (a12) i j - rdv h (a22) i j
           \<and> rdv (heapT h n (Gst 10)) (sv ! 7) i j = rdv h (b21) i j + rdv h (b22) i j
           \<and> rdv (heapT h n (Gst 10)) (sv ! 8) i j = rdv h (a11) i j - rdv h (a21) i j
           \<and> rdv (heapT h n (Gst 10)) (sv ! 9) i j = rdv h (b11) i j + rdv h (b12) i j"
  proof (intro allI impI)
    fix i j
    assume "0 \<le> i \<and> i < n \<and> 0 \<le> j \<and> j < n"
    then have ij: "0 \<le> i" "i < n" "0 \<le> j" "j < n" by simp_all
    from rS [OF ij, unfolded qv] show "rdv (heapT h n (Gst 10)) (sv ! 0) i j = rdv h (b12) i j - rdv h (b22) i j
           \<and> rdv (heapT h n (Gst 10)) (sv ! 1) i j = rdv h (a11) i j + rdv h (a12) i j
           \<and> rdv (heapT h n (Gst 10)) (sv ! 2) i j = rdv h (a21) i j + rdv h (a22) i j
           \<and> rdv (heapT h n (Gst 10)) (sv ! 3) i j = rdv h (b21) i j - rdv h (b11) i j
           \<and> rdv (heapT h n (Gst 10)) (sv ! 4) i j = rdv h (a11) i j + rdv h (a22) i j
           \<and> rdv (heapT h n (Gst 10)) (sv ! 5) i j = rdv h (b11) i j + rdv h (b22) i j
           \<and> rdv (heapT h n (Gst 10)) (sv ! 6) i j = rdv h (a12) i j - rdv h (a22) i j
           \<and> rdv (heapT h n (Gst 10)) (sv ! 7) i j = rdv h (b21) i j + rdv h (b22) i j
           \<and> rdv (heapT h n (Gst 10)) (sv ! 8) i j = rdv h (a11) i j - rdv h (a21) i j
           \<and> rdv (heapT h n (Gst 10)) (sv ! 9) i j = rdv h (b11) i j + rdv h (b12) i j"
      by (intro conjI)
  qed
  have Pall: "\<forall>i j. 0 \<le> i \<and> i < n \<and> 0 \<le> j \<and> j < n \<longrightarrow>
             rdv (heapT h n (Gst 17)) (pv ! 0) i j = matprod (rdv h (a11)) (rdv (heapT h n (Gst 10)) (sv ! 0)) n i j
           \<and> rdv (heapT h n (Gst 17)) (pv ! 1) i j = matprod (rdv (heapT h n (Gst 10)) (sv ! 1)) (rdv h (b22)) n i j
           \<and> rdv (heapT h n (Gst 17)) (pv ! 2) i j = matprod (rdv (heapT h n (Gst 10)) (sv ! 2)) (rdv h (b11)) n i j
           \<and> rdv (heapT h n (Gst 17)) (pv ! 3) i j = matprod (rdv h (a22)) (rdv (heapT h n (Gst 10)) (sv ! 3)) n i j
           \<and> rdv (heapT h n (Gst 17)) (pv ! 4) i j = matprod (rdv (heapT h n (Gst 10)) (sv ! 4)) (rdv (heapT h n (Gst 10)) (sv ! 5)) n i j
           \<and> rdv (heapT h n (Gst 17)) (pv ! 5) i j = matprod (rdv (heapT h n (Gst 10)) (sv ! 6)) (rdv (heapT h n (Gst 10)) (sv ! 7)) n i j
           \<and> rdv (heapT h n (Gst 17)) (pv ! 6) i j = matprod (rdv (heapT h n (Gst 10)) (sv ! 8)) (rdv (heapT h n (Gst 10)) (sv ! 9)) n i j"
  proof (intro allI impI)
    fix i j
    assume "0 \<le> i \<and> i < n \<and> 0 \<le> j \<and> j < n"
    then have ij: "0 \<le> i" "i < n" "0 \<le> j" "j < n" by simp_all
    from rP [OF ij, unfolded qv] show "rdv (heapT h n (Gst 17)) (pv ! 0) i j = matprod (rdv h (a11)) (rdv (heapT h n (Gst 10)) (sv ! 0)) n i j
           \<and> rdv (heapT h n (Gst 17)) (pv ! 1) i j = matprod (rdv (heapT h n (Gst 10)) (sv ! 1)) (rdv h (b22)) n i j
           \<and> rdv (heapT h n (Gst 17)) (pv ! 2) i j = matprod (rdv (heapT h n (Gst 10)) (sv ! 2)) (rdv h (b11)) n i j
           \<and> rdv (heapT h n (Gst 17)) (pv ! 3) i j = matprod (rdv h (a22)) (rdv (heapT h n (Gst 10)) (sv ! 3)) n i j
           \<and> rdv (heapT h n (Gst 17)) (pv ! 4) i j = matprod (rdv (heapT h n (Gst 10)) (sv ! 4)) (rdv (heapT h n (Gst 10)) (sv ! 5)) n i j
           \<and> rdv (heapT h n (Gst 17)) (pv ! 5) i j = matprod (rdv (heapT h n (Gst 10)) (sv ! 6)) (rdv (heapT h n (Gst 10)) (sv ! 7)) n i j
           \<and> rdv (heapT h n (Gst 17)) (pv ! 6) i j = matprod (rdv (heapT h n (Gst 10)) (sv ! 8)) (rdv (heapT h n (Gst 10)) (sv ! 9)) n i j"
      by (intro conjI)
  qed
  have Call: "\<forall>i j. 0 \<le> i \<and> i < n \<and> 0 \<le> j \<and> j < n \<longrightarrow>
             rdv h4 (c11) i j = rdv (heapT h n (Gst 17)) (pv ! 4) i j + rdv (heapT h n (Gst 17)) (pv ! 3) i j - rdv (heapT h n (Gst 17)) (pv ! 1) i j + rdv (heapT h n (Gst 17)) (pv ! 5) i j
           \<and> rdv h4 (c12) i j = rdv (heapT h n (Gst 17)) (pv ! 0) i j + rdv (heapT h n (Gst 17)) (pv ! 1) i j
           \<and> rdv h4 (c21) i j = rdv (heapT h n (Gst 17)) (pv ! 2) i j + rdv (heapT h n (Gst 17)) (pv ! 3) i j
           \<and> rdv h4 (c22) i j = rdv (heapT h n (Gst 17)) (pv ! 4) i j + rdv (heapT h n (Gst 17)) (pv ! 0) i j - rdv (heapT h n (Gst 17)) (pv ! 2) i j - rdv (heapT h n (Gst 17)) (pv ! 6) i j"
  proof (intro allI impI)
    fix i j
    assume "0 \<le> i \<and> i < n \<and> 0 \<le> j \<and> j < n"
    then have ij: "0 \<le> i" "i < n" "0 \<le> j" "j < n" by simp_all
    from rC [OF ij, unfolded qv] show "rdv h4 (c11) i j = rdv (heapT h n (Gst 17)) (pv ! 4) i j + rdv (heapT h n (Gst 17)) (pv ! 3) i j - rdv (heapT h n (Gst 17)) (pv ! 1) i j + rdv (heapT h n (Gst 17)) (pv ! 5) i j
           \<and> rdv h4 (c12) i j = rdv (heapT h n (Gst 17)) (pv ! 0) i j + rdv (heapT h n (Gst 17)) (pv ! 1) i j
           \<and> rdv h4 (c21) i j = rdv (heapT h n (Gst 17)) (pv ! 2) i j + rdv (heapT h n (Gst 17)) (pv ! 3) i j
           \<and> rdv h4 (c22) i j = rdv (heapT h n (Gst 17)) (pv ! 4) i j + rdv (heapT h n (Gst 17)) (pv ! 0) i j - rdv (heapT h n (Gst 17)) (pv ! 2) i j - rdv (heapT h n (Gst 17)) (pv ! 6) i j"
      by (intro conjI)
  qed
  have tr: "\<exists>s p hA hB hs h1 h2 h3 h4 h5 h6 h7 hF h'.
         quadrants h a n = Inr (q11 a n, q12 a n, q21 a n, q22 a n)
       \<and> quadrants h b n = Inr (q11 b n, q12 b n, q21 b n, q22 b n)
       \<and> quadrants h c n = Inr (q11 c n, q12 c n, q21 c n, q22 c n)
       \<and> new_temps 10 n h = Inr (s, hA)
       \<and> new_temps 7 n hA = Inr (p, hB)
       \<and> length s = 10
       \<and> length p = 7
       \<and> compute_s (q11 a n, q12 a n, q21 a n, q22 a n) (q11 b n, q12 b n, q21 b n, q22 b n) s n hB = Inr hs
       \<and> (\<forall>i j. 0 \<le> i \<and> i < n \<and> 0 \<le> j \<and> j < n \<longrightarrow>
             rdv hs (s ! 0) i j = rdv h (q12 b n) i j - rdv h (q22 b n) i j
           \<and> rdv hs (s ! 1) i j = rdv h (q11 a n) i j + rdv h (q12 a n) i j
           \<and> rdv hs (s ! 2) i j = rdv h (q21 a n) i j + rdv h (q22 a n) i j
           \<and> rdv hs (s ! 3) i j = rdv h (q21 b n) i j - rdv h (q11 b n) i j
           \<and> rdv hs (s ! 4) i j = rdv h (q11 a n) i j + rdv h (q22 a n) i j
           \<and> rdv hs (s ! 5) i j = rdv h (q11 b n) i j + rdv h (q22 b n) i j
           \<and> rdv hs (s ! 6) i j = rdv h (q12 a n) i j - rdv h (q22 a n) i j
           \<and> rdv hs (s ! 7) i j = rdv h (q21 b n) i j + rdv h (q22 b n) i j
           \<and> rdv hs (s ! 8) i j = rdv h (q11 a n) i j - rdv h (q21 a n) i j
           \<and> rdv hs (s ! 9) i j = rdv h (q11 b n) i j + rdv h (q12 b n) i j)
       \<and> P_Strassen_rel (q11 a n, s ! 0, p ! 0, n, level + 1, hs) (a, b, c, sz, level, h)
       \<and> (\<forall>x y z m l (H :: 'a heap). P_Strassen_rel (x, y, z, m, l, H) (a, b, c, sz, level, h) \<longrightarrow>
             m = n \<and> l = level + 1 \<and>
             (x, y, z) \<in> {(q11 a n, s ! 0, p ! 0), (s ! 1, q22 b n, p ! 1), (s ! 2, q11 b n, p ! 2),
                          (q22 a n, s ! 3, p ! 3), (s ! 4, s ! 5, p ! 4), (s ! 6, s ! 7, p ! 5),
                          (s ! 8, s ! 9, p ! 6)})
       \<and> P_Strassen (q11 a n) (s ! 0) (p ! 0) n (level + 1) hs = Inr h1
       \<and> P_Strassen (s ! 1) (q22 b n) (p ! 1) n (level + 1) h1 = Inr h2
       \<and> P_Strassen (s ! 2) (q11 b n) (p ! 2) n (level + 1) h2 = Inr h3
       \<and> P_Strassen (q22 a n) (s ! 3) (p ! 3) n (level + 1) h3 = Inr h4
       \<and> P_Strassen (s ! 4) (s ! 5) (p ! 4) n (level + 1) h4 = Inr h5
       \<and> P_Strassen (s ! 6) (s ! 7) (p ! 5) n (level + 1) h5 = Inr h6
       \<and> P_Strassen (s ! 8) (s ! 9) (p ! 6) n (level + 1) h6 = Inr h7
       \<and> (\<forall>i j. 0 \<le> i \<and> i < n \<and> 0 \<le> j \<and> j < n \<longrightarrow>
             rdv h7 (p ! 0) i j = matprod (rdv h (q11 a n)) (rdv hs (s ! 0)) n i j
           \<and> rdv h7 (p ! 1) i j = matprod (rdv hs (s ! 1)) (rdv h (q22 b n)) n i j
           \<and> rdv h7 (p ! 2) i j = matprod (rdv hs (s ! 2)) (rdv h (q11 b n)) n i j
           \<and> rdv h7 (p ! 3) i j = matprod (rdv h (q22 a n)) (rdv hs (s ! 3)) n i j
           \<and> rdv h7 (p ! 4) i j = matprod (rdv hs (s ! 4)) (rdv hs (s ! 5)) n i j
           \<and> rdv h7 (p ! 5) i j = matprod (rdv hs (s ! 6)) (rdv hs (s ! 7)) n i j
           \<and> rdv h7 (p ! 6) i j = matprod (rdv hs (s ! 8)) (rdv hs (s ! 9)) n i j)
       \<and> combine (q11 c n, q12 c n, q21 c n, q22 c n) p n h7 = Inr hF
       \<and> h' = take (length h) hF
       \<and> P_Strassen a b c sz level h = Inr h'
       \<and> (\<forall>i j. 0 \<le> i \<and> i < n \<and> 0 \<le> j \<and> j < n \<longrightarrow>
             rdv h' (q11 c n) i j = rdv h7 (p ! 4) i j + rdv h7 (p ! 3) i j - rdv h7 (p ! 1) i j + rdv h7 (p ! 5) i j
           \<and> rdv h' (q12 c n) i j = rdv h7 (p ! 0) i j + rdv h7 (p ! 1) i j
           \<and> rdv h' (q21 c n) i j = rdv h7 (p ! 2) i j + rdv h7 (p ! 3) i j
           \<and> rdv h' (q22 c n) i j = rdv h7 (p ! 4) i j + rdv h7 (p ! 0) i j - rdv h7 (p ! 2) i j - rdv h7 (p ! 6) i j)"
    apply (rule exI [of _ sv], rule exI [of _ pv])
    apply (rule exI [of _ "h @ replicate 10 (mat n (\<lambda>r c. 0))"], rule exI [of _ "heapT h n (Gst 0)"])
    apply (rule exI [of _ "heapT h n (Gst 10)"], rule exI [of _ "heapT h n (Gst 11)"])
    apply (rule exI [of _ "heapT h n (Gst 12)"], rule exI [of _ "heapT h n (Gst 13)"])
    apply (rule exI [of _ "heapT h n (Gst 14)"], rule exI [of _ "heapT h n (Gst 15)"])
    apply (rule exI [of _ "heapT h n (Gst 16)"], rule exI [of _ "heapT h n (Gst 17)"])
    apply (rule exI [of _ "heapT h4 n (Gst 17)"], rule exI [of _ h4])
    unfolding qv
    by (intro conjI; (rule q1 q2 q3 t1 t2 lens cs Sall rel1 relU r0 r1 r2 r3 r4 r5 r6 Pall cb
          tk [symmetric] fin' Call))
  show ?thesis using res tr by (rule conjI)
qed

lemma PS_step:
  fixes h :: "('a::ring) heap"
  assumes REC: "\<And>x y z m (H :: 'a heap).
        wf_heap H \<Longrightarrow> holds H x m (rdv H x) \<Longrightarrow> holds H y m (rdv H y) \<Longrightarrow> holds H z m (rdv H z)
        \<Longrightarrow> 0 \<le> m \<Longrightarrow> separate z x m \<Longrightarrow> separate z y m
        \<Longrightarrow> P_Strassen x y z m (level + 1) H =
            Inr (fill H (baseAddr z) (window z m)
                   (\<lambda>r c. matprod (rdv H x) (rdv H y) m (r - row0 z) (c - col0 z)))"
    and wf: "wf_heap h"
    and ha: "holds h a sz (rdv h a)" and hb: "holds h b sz (rdv h b)" and hc: "holds h c sz (rdv h c)"
    and sz: "0 \<le> sz" "2 dvd sz" and lv: "level \<le> 1"
  shows "P_Strassen a b c sz level h =
         Inr (fill h (baseAddr c) (window c sz)
                (\<lambda>r c'. matprod (rdv h a) (rdv h b) sz (r - row0 c) (c' - col0 c)))"
  by (rule PS_step_trace [THEN conjunct1, OF REC wf ha hb hc sz lv refl])

section \<open>Every case\<close>

lemma window_1: "window v 1 r c \<longleftrightarrow> r = row0 v \<and> c = col0 v"
  by (auto simp: window_def)

lemma matprod_1: "matprod A B 1 i j = A i 0 * B 0 j"
proof -
  have "{0..<1::int} = {0}" by auto
  then show ?thesis by (simp add: matprod_def)
qed

lemma PS_base:
  fixes h :: "('a::ring) heap"
  assumes wf: "wf_heap h"
    and ha: "holds h a 1 (rdv h a)" and hb: "holds h b 1 (rdv h b)" and hc: "holds h c 1 (rdv h c)"
  shows "P_Strassen a b c 1 level h =
         Inr (fill h (baseAddr c) (window c 1)
                (\<lambda>r c'. matprod (rdv h a) (rdv h b) 1 (r - row0 c) (c' - col0 c)))"
proof -
  have ra: "rd h a 0 0 = Inr (rdv h a 0 0)" using ha by (intro rd_valid) (simp_all add: holds_def)
  have rb: "rd h b 0 0 = Inr (rdv h b 0 0)" using hb by (intro rd_valid) (simp_all add: holds_def)
  have ib: "inb h (baseAddr c) (row0 c) (col0 c)"
    using inb_valid [of h c 0 0] hc by (simp add: holds_def)
  have w: "wr h c 0 0 x = Inr (poke h (baseAddr c) (row0 c) (col0 c) x)" for x
    using wr_valid [of h c 0 0 x] hc by (simp add: holds_def)
  have "P_Strassen a b c 1 level h =
        Inr (poke h (baseAddr c) (row0 c) (col0 c) (rdv h a 0 0 * rdv h b 0 0))"
    by (subst P_Strassen.simps) (simp add: ra rb w)
  also have "poke h (baseAddr c) (row0 c) (col0 c) (rdv h a 0 0 * rdv h b 0 0)
      = fill h (baseAddr c) (\<lambda>r c'. r = row0 c \<and> c' = col0 c) (\<lambda>r c'. rdv h a 0 0 * rdv h b 0 0)"
    using wf ib by (rule poke_as_fill)
  also have "\<dots> = fill h (baseAddr c) (window c 1)
                (\<lambda>r c'. matprod (rdv h a) (rdv h b) 1 (r - row0 c) (c' - col0 c))"
    by (rule fill_cong [OF wf]) (simp_all add: window_1 matprod_1)
  finally show ?thesis .
qed

lemma PS_fallback:
  "sz \<noteq> 1 \<Longrightarrow> \<not> 2 dvd sz \<or> 1 < level
   \<Longrightarrow> P_Strassen a b c sz level h = Multiplication a b c sz h"
  by (subst P_Strassen.simps) (auto simp: tmod_2)

lemma Multiplication_holds:
  fixes h :: "('a::semiring_0) heap"
  assumes "wf_heap h"
    and "holds h a sz (rdv h a)" and "holds h b sz (rdv h b)" and "holds h c sz (rdv h c)"
    and "separate c a sz" and "separate c b sz"
  shows "Multiplication a b c sz h =
         Inr (fill h (baseAddr c) (window c sz)
                (\<lambda>r c'. matprod (rdv h a) (rdv h b) sz (r - row0 c) (c' - col0 c)))"
  using assms by (intro Multiplication_fill) (simp_all add: holds_def)

lemma PS_correct:
  fixes h :: "('a::ring) heap"
  assumes "wf_heap h"
    and "holds h a sz (rdv h a)" and "holds h b sz (rdv h b)" and "holds h c sz (rdv h c)"
    and "0 \<le> sz" and "separate c a sz" and "separate c b sz"
  shows "P_Strassen a b c sz level h =
         Inr (fill h (baseAddr c) (window c sz)
                (\<lambda>r c'. matprod (rdv h a) (rdv h b) sz (r - row0 c) (c' - col0 c)))"
  using assms
proof (induction "nat (2 - level)" arbitrary: level a b c sz h)
  case 0
  then have lv: "1 < level" by simp
  show ?case
  proof (cases "sz = 1")
    case True
    then show ?thesis using "0.prems" by (simp add: PS_base)
  next
    case False
    then show ?thesis
      using lv "0.prems" by (simp add: PS_fallback Multiplication_holds)
  qed
next
  case (Suc d)
  then have lv: "level \<le> 1" by simp
  show ?case
  proof (cases "sz = 1")
    case True
    then show ?thesis using Suc.prems by (simp add: PS_base)
  next
    case False
    show ?thesis
    proof (cases "2 dvd sz")
      case odd: False
      then show ?thesis
        using False Suc.prems by (simp add: PS_fallback Multiplication_holds)
    next
      case True
      have d: "d = nat (2 - (level + 1))" using Suc.hyps(2) by simp
      show ?thesis
        by (rule PS_step [OF Suc.hyps(1) [OF d] Suc.prems(1-4) Suc.prems(5) True lv])
    qed
  qed
qed

section \<open>The product\<close>

lemma holdsI: "valid h v \<Longrightarrow> n \<le> extRows h v \<Longrightarrow> n \<le> extCols h v \<Longrightarrow> holds h v n (rdv h v)"
  by (simp add: holds_def)

lemma rd_window:
  assumes "wf_heap h" "valid h c" "sz \<le> extRows h c" "sz \<le> extCols h c"
    and "0 \<le> i" "i < sz" "0 \<le> j" "j < sz"
  shows "rd (fill h (baseAddr c) (window c sz) (\<lambda>r c'. F (r - row0 c) (c' - col0 c))) c i j
         = Inr (F i j)"
  using rd_fill [OF assms(1,2), of i j "baseAddr c" "window c sz"] assms(3-8)
  by (simp add: window_def)

lemma rdv_outside:
  assumes "wf_heap h" "valid h a" "sz \<le> extRows h a" "sz \<le> extCols h a" "separate c a sz"
    and "0 \<le> i" "i < sz" "0 \<le> j" "j < sz"
  shows "rdv (fill h (baseAddr c) (window c sz) F) a i j = rdv h a i j"
proof -
  have "inb h (baseAddr a) (i + row0 a) (j + col0 a)"
    using assms by (intro inb_valid) auto
  moreover have "\<not> (baseAddr a = baseAddr c \<and> window c sz (i + row0 a) (j + col0 a))"
    using assms(5-9) by (auto simp: separate_def window_def)
  ultimately show ?thesis using assms(1) by (auto simp: rdv_def cell_fill)
qed

text \<open>
  C3 (as amended). When the \<open>size\<close> by \<open>size\<close> window of \<open>c\<close> shares no element with those of
  \<open>a\<close> and \<open>b\<close>, Multiplication returns, and afterwards every \<open>c(i, j)\<close> of the window is the sum
  over \<open>k\<close> of \<open>a(i, k) * b(k, j)\<close>, whatever \<open>c\<close> held before; \<open>a\<close> and \<open>b\<close> hold what they held.
\<close>

theorem Multiplication_sets_product:
  fixes h :: "('a::semiring_0) heap"
  assumes "wf_heap h" "valid h a" "valid h b" "valid h c"
    and "sz \<le> extRows h a" "sz \<le> extCols h a" "sz \<le> extRows h b" "sz \<le> extCols h b"
    and "sz \<le> extRows h c" "sz \<le> extCols h c"
    and "separate c a sz" "separate c b sz"
  shows "\<exists>h'. Multiplication a b c sz h = Inr h' \<and>
           (\<forall>i j. 0 \<le> i \<and> i < sz \<and> 0 \<le> j \<and> j < sz \<longrightarrow>
              rd h' c i j = Inr (\<Sum>k \<in> {0..<sz}. rdv h a i k * rdv h b k j) \<and>
              rdv h' a i j = rdv h a i j \<and> rdv h' b i j = rdv h b i j)"
proof -
  let ?h' = "fill h (baseAddr c) (window c sz)
               (\<lambda>r c'. matprod (rdv h a) (rdv h b) sz (r - row0 c) (c' - col0 c))"
  have m: "Multiplication a b c sz h = Inr ?h'"
    using assms by (intro Multiplication_fill)
  have "rd ?h' c i j = Inr (\<Sum>k \<in> {0..<sz}. rdv h a i k * rdv h b k j)
        \<and> rdv ?h' a i j = rdv h a i j \<and> rdv ?h' b i j = rdv h b i j"
    if "0 \<le> i" "i < sz" "0 \<le> j" "j < sz" for i j
    using rd_window [OF assms(1,4,9,10) that, of "matprod (rdv h a) (rdv h b) sz"]
      rdv_outside [OF assms(1,2,5,6,11) that] rdv_outside [OF assms(1,3,7,8,12) that]
    by (simp add: matprod_def)
  with m show ?thesis by blast
qed

lemma wf_H2: "wf_heap H2"
  by (simp add: wf_heap_def wf_Matrix_def H2_def)

lemma Mult_H2:
  "Multiplication (vw 0 2) (vw 1 2) (vw 2 2) 2 H2 =
     Inr [\<lparr>rows = 2, cols = 2, data = [1, 2, 3, 4]\<rparr>, \<lparr>rows = 2, cols = 2, data = [5, 6, 7, 8]\<rparr>,
          \<lparr>rows = 2, cols = 2, data = [19, 22, 43, 50]\<rparr>]"
  by code_simp

lemma views_H2:
  "valid H2 (vw 0 2)" "valid H2 (vw 1 2)" "valid H2 (vw 2 2)"
  "extRows H2 (vw 0 2) = 2" "extCols H2 (vw 0 2) = 2" "extRows H2 (vw 1 2) = 2"
  "extCols H2 (vw 1 2) = 2" "extRows H2 (vw 2 2) = 2" "extCols H2 (vw 2 2) = 2"
  "separate (vw 2 2) (vw 0 2) 2" "separate (vw 2 2) (vw 1 2) 2"
  by (simp_all add: vw_def H2_def separate_def)

theorem Multiplication_sets_product_witness:
  "wf_heap H2 \<and> valid H2 (vw 0 2) \<and> valid H2 (vw 1 2) \<and> valid H2 (vw 2 2)
   \<and> separate (vw 2 2) (vw 0 2) 2 \<and> separate (vw 2 2) (vw 1 2) 2
   \<and> (\<exists>h'. Multiplication (vw 0 2) (vw 1 2) (vw 2 2) 2 H2 = Inr h'
         \<and> rd h' (vw 2 2) 1 0 = Inr (\<Sum>k \<in> {0..<2}. rdv H2 (vw 0 2) 1 k * rdv H2 (vw 1 2) k 0))"
proof -
  have "\<exists>h'. Multiplication (vw 0 2) (vw 1 2) (vw 2 2) 2 H2 = Inr h' \<and>
           (\<forall>i j. 0 \<le> i \<and> i < 2 \<and> 0 \<le> j \<and> j < 2 \<longrightarrow>
              rd h' (vw 2 2) i j = Inr (\<Sum>k \<in> {0..<2}. rdv H2 (vw 0 2) i k * rdv H2 (vw 1 2) k j) \<and>
              rdv h' (vw 0 2) i j = rdv H2 (vw 0 2) i j \<and> rdv h' (vw 1 2) i j = rdv H2 (vw 1 2) i j)"
    by (rule Multiplication_sets_product [OF wf_H2 views_H2(1-3)])
      (simp_all add: views_H2 del: One_nat_def)
  then obtain h' where "Multiplication (vw 0 2) (vw 1 2) (vw 2 2) 2 H2 = Inr h'"
    and "rd h' (vw 2 2) 1 0 = Inr (\<Sum>k \<in> {0..<2}. rdv H2 (vw 0 2) 1 k * rdv H2 (vw 1 2) k 0)"
    by force
  then show ?thesis using wf_H2 views_H2 by blast
qed

lemma wf_HA: "wf_heap HA"
  by (simp add: wf_heap_def wf_Matrix_def HA_def)

lemma Mult_HA:
  "Multiplication (vw 0 2) (vw 1 2) (vw 0 2) 2 HA =
     Inr [\<lparr>rows = 2, cols = 2, data = [1, 2, 1, 2]\<rparr>, \<lparr>rows = 2, cols = 2, data = [1, 1, 1, 1]\<rparr>]"
  by code_simp

lemma PS_HA:
  "P_Strassen (vw 0 2) (vw 1 2) (vw 0 2) 2 0 HA =
     Inr [\<lparr>rows = 2, cols = 2, data = [2, 2, 2, 2]\<rparr>, \<lparr>rows = 2, cols = 2, data = [1, 1, 1, 1]\<rparr>]"
  by code_simp

text \<open>
  Counterexample to C3 as stated: with the output view on the same elements as \<open>a\<close>
  (all elements of \<open>a\<close> and \<open>b\<close> are 1, size 2), the call leaves \<open>c(0,0) = 1\<close>, while the sum
  of \<open>a(0,k) * b(k,0)\<close> is 2 with the values before the call and 3 with those after it.
\<close>

theorem Multiplication_aliased:
  "valid HA (vw 0 2) \<and> valid HA (vw 1 2) \<and> extRows HA (vw 0 2) = 2 \<and> extCols HA (vw 0 2) = 2
   \<and> extRows HA (vw 1 2) = 2 \<and> extCols HA (vw 1 2) = 2
   \<and> Multiplication (vw 0 2) (vw 1 2) (vw 0 2) 2 HA =
       Inr [\<lparr>rows = 2, cols = 2, data = [1, 2, 1, 2]\<rparr>, \<lparr>rows = 2, cols = 2, data = [1, 1, 1, 1]\<rparr>]
   \<and> rd [\<lparr>rows = 2, cols = 2, data = [1, 2, 1, 2]\<rparr>, \<lparr>rows = 2, cols = 2, data = [1, 1, 1, 1]\<rparr>]
        (vw 0 2) 0 0 = Inr (1::int)
   \<and> rdv HA (vw 0 2) 0 0 * rdv HA (vw 1 2) 0 0 + rdv HA (vw 0 2) 0 1 * rdv HA (vw 1 2) 1 0 = 2
   \<and> rdv [\<lparr>rows = 2, cols = 2, data = [1, 2, 1, 2]\<rparr>, \<lparr>rows = 2, cols = 2, data = [1, 1, 1, 1]\<rparr>]
        (vw 0 2) 0 0
       * rdv [\<lparr>rows = 2, cols = 2, data = [1, 2, 1, 2]\<rparr>, \<lparr>rows = 2, cols = 2, data = [1, 1, 1, 1]\<rparr>]
          (vw 1 2) 0 0
     + rdv [\<lparr>rows = 2, cols = 2, data = [1, 2, 1, 2]\<rparr>, \<lparr>rows = 2, cols = 2, data = [1, 1, 1, 1]\<rparr>]
         (vw 0 2) 0 1
       * rdv [\<lparr>rows = 2, cols = 2, data = [1, 2, 1, 2]\<rparr>, \<lparr>rows = 2, cols = 2, data = [1, 1, 1, 1::int]\<rparr>]
          (vw 1 2) 1 0 = 3"
  using Mult_HA by (simp add: vw_def HA_def rd_def load_def rdv_def cell_def)

text \<open>
  C1 (as amended). For \<open>N \<ge> 1\<close>, when the \<open>N\<close> by \<open>N\<close> window of \<open>c\<close> shares no element with
  those of \<open>a\<close> and \<open>b\<close>, \<open>P_Strassen(a, b, c, N, 0)\<close> and \<open>Multiplication(a, b, c, N)\<close> return
  the same heap, in which \<open>c\<close> shows the matrix product of \<open>a\<close> and \<open>b\<close>.
\<close>

theorem P_Strassen_equals_Multiplication:
  fixes h :: "('a::ring) heap"
  assumes "wf_heap h" "valid h a" "valid h b" "valid h c"
    and "N \<le> extRows h a" "N \<le> extCols h a" "N \<le> extRows h b" "N \<le> extCols h b"
    and "N \<le> extRows h c" "N \<le> extCols h c"
    and "1 \<le> N" and "separate c a N" "separate c b N"
  shows "\<exists>h'. P_Strassen a b c N 0 h = Inr h' \<and> Multiplication a b c N h = Inr h' \<and>
           (\<forall>i j. 0 \<le> i \<and> i < N \<and> 0 \<le> j \<and> j < N \<longrightarrow>
              rd h' c i j = Inr (\<Sum>k \<in> {0..<N}. rdv h a i k * rdv h b k j))"
proof -
  let ?h' = "fill h (baseAddr c) (window c N)
               (\<lambda>r c'. matprod (rdv h a) (rdv h b) N (r - row0 c) (c' - col0 c))"
  have m: "Multiplication a b c N h = Inr ?h'"
    using assms by (intro Multiplication_fill)
  have p: "P_Strassen a b c N 0 h = Inr ?h'"
    using assms by (intro PS_correct holdsI) simp_all
  have "rd ?h' c i j = Inr (\<Sum>k \<in> {0..<N}. rdv h a i k * rdv h b k j)"
    if "0 \<le> i" "i < N" "0 \<le> j" "j < N" for i j
    using rd_window [OF assms(1,4,9,10) that, of "matprod (rdv h a) (rdv h b) N"]
    by (simp add: matprod_def)
  with m p show ?thesis by blast
qed

lemma PS_H2:
  "P_Strassen (vw 0 2) (vw 1 2) (vw 2 2) 2 0 H2 =
     Inr [\<lparr>rows = 2, cols = 2, data = [1, 2, 3, 4]\<rparr>, \<lparr>rows = 2, cols = 2, data = [5, 6, 7, 8]\<rparr>,
          \<lparr>rows = 2, cols = 2, data = [19, 22, 43, 50]\<rparr>]"
  by code_simp

theorem P_Strassen_equals_Multiplication_witness:
  "wf_heap H2 \<and> valid H2 (vw 0 2) \<and> valid H2 (vw 1 2) \<and> valid H2 (vw 2 2)
   \<and> separate (vw 2 2) (vw 0 2) 2 \<and> separate (vw 2 2) (vw 1 2) 2
   \<and> P_Strassen (vw 0 2) (vw 1 2) (vw 2 2) 2 0 H2 = Multiplication (vw 0 2) (vw 1 2) (vw 2 2) 2 H2
   \<and> P_Strassen (vw 0 2) (vw 1 2) (vw 2 2) 2 0 H2 =
       Inr [\<lparr>rows = 2, cols = 2, data = [1, 2, 3, 4]\<rparr>, \<lparr>rows = 2, cols = 2, data = [5, 6, 7, 8]\<rparr>,
            \<lparr>rows = 2, cols = 2, data = [19, 22, 43, 50]\<rparr>]"
proof -
  have "\<exists>h'. P_Strassen (vw 0 2) (vw 1 2) (vw 2 2) 2 0 H2 = Inr h'
          \<and> Multiplication (vw 0 2) (vw 1 2) (vw 2 2) 2 H2 = Inr h' \<and>
           (\<forall>i j. 0 \<le> i \<and> i < 2 \<and> 0 \<le> j \<and> j < 2 \<longrightarrow>
              rd h' (vw 2 2) i j = Inr (\<Sum>k \<in> {0..<2}. rdv H2 (vw 0 2) i k * rdv H2 (vw 1 2) k j))"
    by (rule P_Strassen_equals_Multiplication [OF wf_H2 views_H2(1-3)])
      (simp_all add: views_H2 del: One_nat_def)
  then have "P_Strassen (vw 0 2) (vw 1 2) (vw 2 2) 2 0 H2
             = Multiplication (vw 0 2) (vw 1 2) (vw 2 2) 2 H2"
    by force
  then show ?thesis using wf_H2 views_H2 Mult_H2 by simp
qed

text \<open>
  Counterexample to C1 as stated: with the output view on the same elements as \<open>a\<close> (all
  elements 1, size 2) the two functions return different contents of \<open>c\<close>: \<open>P_Strassen\<close>
  reads \<open>a\<close> and \<open>b\<close> before it writes \<open>c\<close>, Multiplication reads elements it has overwritten.
\<close>

theorem P_Strassen_aliased:
  "valid HA (vw 0 2) \<and> valid HA (vw 1 2) \<and> extRows HA (vw 0 2) = 2 \<and> extCols HA (vw 0 2) = 2
   \<and> extRows HA (vw 1 2) = 2 \<and> extCols HA (vw 1 2) = 2
   \<and> P_Strassen (vw 0 2) (vw 1 2) (vw 0 2) 2 0 HA =
       Inr [\<lparr>rows = 2, cols = 2, data = [2, 2, 2, 2]\<rparr>, \<lparr>rows = 2, cols = 2, data = [1, 1, 1, 1]\<rparr>]
   \<and> Multiplication (vw 0 2) (vw 1 2) (vw 0 2) 2 HA =
       Inr [\<lparr>rows = 2, cols = 2, data = [1, 2, 1, 2]\<rparr>, \<lparr>rows = 2, cols = 2, data = [1, 1, 1, 1]\<rparr>]
   \<and> P_Strassen (vw 0 2) (vw 1 2) (vw 0 2) 2 0 HA \<noteq> Multiplication (vw 0 2) (vw 1 2) (vw 0 2) 2 HA"
  using Mult_HA PS_HA by (simp add: vw_def HA_def)

section \<open>No exception\<close>

lemma same_dims_refl [simp]: "same_dims h h"
  by (simp add: same_dims_def)

lemma get_same_dims: "same_dims H h \<Longrightarrow> get H v i j = get h v i j"
  by (induction v arbitrary: i j) (simp_all add: same_dims_def)

lemma same_dims_store: "same_dims H h \<Longrightarrow> same_dims (store H l x) h"
  by (cases "fst l < length H")
     (auto simp: same_dims_def store_def nth_list_update list_update_beyond)

lemma for_loop_inv:
  assumes "I s" and "\<And>i s. i0 \<le> i \<Longrightarrow> i < n \<Longrightarrow> I s \<Longrightarrow> \<exists>s'. body i s = Inr s' \<and> I s'"
  shows "\<exists>s'. for_loop i0 n body s = Inr s' \<and> I s'"
  using assms
proof (induction "nat (n - i0)" arbitrary: i0 s)
  case 0
  then have "n \<le> i0" by simp
  then show ?case using "0.prems"(1) by (simp add: for_loop_done)
next
  case (Suc d)
  then have lt: "i0 < n" by linarith
  obtain s1 where s1: "body i0 s = Inr s1" "I s1"
    using Suc.prems(2) [of i0 s] lt Suc.prems(1) by auto
  have "\<exists>s'. for_loop (i0 + 1) n body s1 = Inr s' \<and> I s'"
    using Suc.hyps(2) lt s1(2) Suc.prems(2) by (intro Suc.hyps(1)) auto
  then show ?case using lt s1(1) by (simp add: for_loop.simps [of i0])
qed

lemma get_ok:
  "valid h v \<Longrightarrow> 0 \<le> i \<Longrightarrow> i < extRows h v \<Longrightarrow> 0 \<le> j \<Longrightarrow> j < extCols h v
   \<Longrightarrow> \<exists>l. get h v i j = Inr l"
  using get_valid [of h v i j] by simp

lemma Multiplication_returns:
  fixes h :: "('a::semiring_0) heap"
  assumes va: "valid h a" and vb: "valid h b" and vc: "valid h c"
    and ea: "sz \<le> extRows h a" "sz \<le> extCols h a"
    and eb: "sz \<le> extRows h b" "sz \<le> extCols h b"
    and ec: "sz \<le> extRows h c" "sz \<le> extCols h c"
  shows "\<exists>h'. Multiplication a b c sz h = Inr h' \<and> same_dims h' h"
proof -
  let ?kb = "\<lambda>i j k (H :: 'a heap).
         bindE (rd H c i j) (\<lambda>x. bindE (rd H a i k) (\<lambda>y. bindE (rd H b k j) (\<lambda>z.
           wr H c i j (x + y * z))))"
  let ?jb = "\<lambda>i j (H :: 'a heap). bindE (wr H c i j 0) (for_loop 0 sz (?kb i j))"
  have kstep: "\<exists>H'. ?kb i j k H = Inr H' \<and> same_dims H' h"
    if ijk: "0 \<le> i" "i < sz" "0 \<le> j" "j < sz" "0 \<le> k" "k < sz" and sd: "same_dims H h"
    for i j k H
  proof -
    obtain lc where lc: "get h c i j = Inr lc" using get_ok [OF vc, of i j] ijk ec by auto
    obtain la where la: "get h a i k = Inr la" using get_ok [OF va, of i k] ijk ea by auto
    obtain lb where lb: "get h b k j = Inr lb" using get_ok [OF vb, of k j] ijk eb by auto
    show ?thesis
      using sd lc la lb by (simp add: rd_def wr_def get_same_dims same_dims_store)
  qed
  have jstep: "\<exists>H'. ?jb i j H = Inr H' \<and> same_dims H' h"
    if ij: "0 \<le> i" "i < sz" "0 \<le> j" "j < sz" and sd: "same_dims H h" for i j H
  proof -
    obtain lc where lc: "get h c i j = Inr lc" using get_ok [OF vc, of i j] ij ec by auto
    have w: "wr H c i j 0 = Inr (store H lc 0)"
      using sd lc by (simp add: wr_def get_same_dims)
    have "\<exists>H'. for_loop 0 sz (?kb i j) (store H lc 0) = Inr H' \<and> same_dims H' h"
    proof (rule for_loop_inv [where I = "\<lambda>H. same_dims H h"])
      show "same_dims (store H lc 0) h" using sd by (rule same_dims_store)
    next
      fix k s assume "0 \<le> k" "k < sz" "same_dims s h"
      then show "\<exists>s'. ?kb i j k s = Inr s' \<and> same_dims s' h" by (intro kstep ij)
    qed
    then show ?thesis by (simp add: w)
  qed
  have istep: "\<exists>H'. for_loop 0 sz (?jb i) H = Inr H' \<and> same_dims H' h"
    if i: "0 \<le> i" "i < sz" and sd: "same_dims H h" for i H
  proof (rule for_loop_inv [where I = "\<lambda>H. same_dims H h"])
    show "same_dims H h" by (rule sd)
  next
    fix j s assume "0 \<le> j" "j < sz" "same_dims s h"
    then show "\<exists>s'. ?jb i j s = Inr s' \<and> same_dims s' h" by (intro jstep i)
  qed
  have "\<exists>H'. for_loop 0 sz (\<lambda>i. for_loop 0 sz (?jb i)) h = Inr H' \<and> same_dims H' h"
  proof (rule for_loop_inv [where I = "\<lambda>H. same_dims H h"])
    show "same_dims h h" by simp
  next
    fix i s assume "0 \<le> i" "i < sz" "same_dims s h"
    then show "\<exists>s'. for_loop 0 sz (?jb i) s = Inr s' \<and> same_dims s' h" by (intro istep)
  qed
  then show ?thesis by (simp add: Multiplication_def for_ij_def)
qed

lemma PS_returns:
  fixes h :: "('a::ring) heap"
  assumes "wf_heap h" "valid h a" "valid h b" "valid h c"
    and "sz \<le> extRows h a" "sz \<le> extCols h a" "sz \<le> extRows h b" "sz \<le> extCols h b"
    and "sz \<le> extRows h c" "sz \<le> extCols h c" and "0 \<le> sz"
  shows "\<exists>h'. P_Strassen a b c sz level h = Inr h'"
proof -
  note hs = holdsI [OF assms(2,5,6)] holdsI [OF assms(3,7,8)] holdsI [OF assms(4,9,10)]
  consider "sz = 1" | "sz \<noteq> 1" "\<not> 2 dvd sz \<or> 1 < level" | "sz \<noteq> 1" "2 dvd sz" "level \<le> 1"
    by linarith
  then show ?thesis
  proof cases
    case 1
    then show ?thesis using PS_base [of h a b c level] assms(1) hs by simp
  next
    case 2
    then show ?thesis
      using Multiplication_returns [OF assms(2-10)] by (auto simp: PS_fallback)
  next
    case 3
    have "P_Strassen a b c sz level h =
         Inr (fill h (baseAddr c) (window c sz)
                (\<lambda>r c'. matprod (rdv h a) (rdv h b) sz (r - row0 c) (c' - col0 c)))"
      by (rule PS_step [OF PS_correct assms(1) hs assms(11) 3(2,3)])
    then show ?thesis by simp
  qed
qed

text \<open>
  C8 (as amended). For \<open>size \<ge> 0\<close> and views of extent at least \<open>size\<close> by \<open>size\<close>,
  \<open>P_Strassen\<close> returns normally: no \<open>makeView\<close> and no element access of the whole recursion
  throws. Multiplication returns normally for every \<open>size\<close>.
\<close>

theorem no_bounds_errors:
  fixes h :: "('a::ring) heap"
  assumes "wf_heap h" "valid h a" "valid h b" "valid h c"
    and "sz \<le> extRows h a" "sz \<le> extCols h a" "sz \<le> extRows h b" "sz \<le> extCols h b"
    and "sz \<le> extRows h c" "sz \<le> extCols h c"
  shows "(0 \<le> sz \<longrightarrow> (\<exists>h'. P_Strassen a b c sz level h = Inr h'))
       \<and> (\<exists>h'. Multiplication a b c sz h = Inr h')"
  using PS_returns [OF assms] Multiplication_returns [OF assms(2-10)] by blast

theorem no_bounds_errors_witness:
  "wf_heap H2 \<and> valid H2 (vw 0 2) \<and> valid H2 (vw 1 2) \<and> valid H2 (vw 2 2)
   \<and> extRows H2 (vw 0 2) = 2 \<and> extCols H2 (vw 0 2) = 2 \<and> extRows H2 (vw 1 2) = 2
   \<and> extCols H2 (vw 1 2) = 2 \<and> extRows H2 (vw 2 2) = 2 \<and> extCols H2 (vw 2 2) = 2
   \<and> (\<exists>h'. P_Strassen (vw 0 2) (vw 1 2) (vw 2 2) 2 0 H2 = Inr h')
   \<and> (\<exists>h'. Multiplication (vw 0 2) (vw 1 2) (vw 2 2) 2 H2 = Inr h')"
proof -
  have "((0::int) \<le> 2 \<longrightarrow> (\<exists>h'. P_Strassen (vw 0 2) (vw 1 2) (vw 2 2) 2 0 H2 = Inr h'))
       \<and> (\<exists>h'. Multiplication (vw 0 2) (vw 1 2) (vw 2 2) 2 H2 = Inr h')"
    by (rule no_bounds_errors [OF wf_H2 views_H2(1-3)]) (simp_all add: views_H2 del: One_nat_def)
  then show ?thesis using wf_H2 views_H2 by simp
qed

text \<open>
  Counterexample to C8 as stated: size \<open>-2\<close> is even and the views, of extent 2, are at
  least that large; the second \<open>makeView\<close>, at column \<open>size / 2 = -1\<close>, throws.
\<close>

theorem negative_size_throws:
  "wf_heap H2 \<and> valid H2 (vw 0 2) \<and> valid H2 (vw 1 2) \<and> valid H2 (vw 2 2)
   \<and> - 2 \<le> extRows H2 (vw 0 2) \<and> - 2 \<le> extCols H2 (vw 0 2) \<and> - 2 \<le> extRows H2 (vw 1 2)
   \<and> - 2 \<le> extCols H2 (vw 1 2) \<and> - 2 \<le> extRows H2 (vw 2 2) \<and> - 2 \<le> extCols H2 (vw 2 2)
   \<and> makeView H2 (vw 0 2) 0 (tdiv (- 2) 2) (tdiv (- 2) 2) (tdiv (- 2) 2) = Inl (IllegalViewSize (- 1) (- 1))
   \<and> P_Strassen (vw 0 2) (vw 1 2) (vw 2 2) (- 2) 0 H2 = Inl (IllegalViewSize (- 1) (- 1))"
proof -
  have "P_Strassen (vw 0 2) (vw 1 2) (vw 2 2) (- 2) 0 H2 = Inl (IllegalViewSize (- 1) (- 1))"
    by code_simp
  moreover have "makeView H2 (vw 0 2) 0 (tdiv (- 2) 2) (tdiv (- 2) 2) (tdiv (- 2) 2)
      = Inl (IllegalViewSize (- 1) (- 1))"
    by (simp add: vw_def tdiv_def)
  ultimately show ?thesis using wf_H2 views_H2 by simp
qed

section \<open>What a call changes\<close>

lemma frame_fill:
  assumes "wf_heap h"
  shows "frame h (fill h (baseAddr c) (window c sz) F) c sz"
  using assms by (auto simp: frame_def same_dims_def cell_fill)

lemma quadrants_negative:
  assumes "n < 0"
  shows "\<exists>e. quadrants h v n = Inl e"
proof -
  have 2: "makeView h v 0 n n n = Inl (IllegalViewSize n n)"
    using assms by (simp add: makeView_ext)
  show ?thesis
    by (cases "makeView h v 0 0 n n") (simp_all add: quadrants_def 2)
qed

lemma Multiplication_nothing: "sz \<le> 0 \<Longrightarrow> Multiplication a b c sz h = Inr h"
  by (simp add: Multiplication_def for_ij_def for_loop_done)

lemma PS_negative:
  assumes "sz < 0" "P_Strassen a b c sz level h = Inr h'"
  shows "h' = h"
proof (cases "\<not> 2 dvd sz \<or> 1 < level")
  case True
  then have "P_Strassen a b c sz level h = Multiplication a b c sz h"
    using assms(1) by (intro PS_fallback) auto
  then show ?thesis using assms by (simp add: Multiplication_nothing)
next
  case False
  then have ev: "2 dvd sz" and lv: "\<not> 1 < level" by auto
  have "tdiv sz 2 < 0" using assms(1) ev by (auto simp: tdiv_2 elim!: dvdE)
  then obtain e where "quadrants h a (tdiv sz 2) = Inl e"
    using quadrants_negative by blast
  then have "P_Strassen a b c sz level h = Inl e"
    using assms(1) ev lv tmod_2 [of sz] by (subst P_Strassen.simps) simp
  then show ?thesis using assms(2) by simp
qed

text \<open>
  C10. Provided the \<open>size\<close> by \<open>size\<close> window of \<open>c\<close> shares no element with those of \<open>a\<close> and
  \<open>b\<close>, a call of Multiplication or of \<open>P_Strassen\<close> that returns leaves the heap with the
  same objects and dimensions, every element outside the window of \<open>c\<close> as it was, and
  every element of the windows of \<open>a\<close> and \<open>b\<close> as it was.
\<close>

theorem writes_only_window_of_c:
  fixes h :: "('a::ring) heap"
  assumes "wf_heap h" "valid h a" "valid h b" "valid h c"
    and "sz \<le> extRows h a" "sz \<le> extCols h a" "sz \<le> extRows h b" "sz \<le> extCols h b"
    and "sz \<le> extRows h c" "sz \<le> extCols h c"
    and "separate c a sz" "separate c b sz"
  shows "(\<forall>h'. Multiplication a b c sz h = Inr h' \<longrightarrow>
            frame h h' c sz \<and>
            (\<forall>i j. 0 \<le> i \<and> i < sz \<and> 0 \<le> j \<and> j < sz \<longrightarrow>
               rdv h' a i j = rdv h a i j \<and> rdv h' b i j = rdv h b i j))
       \<and> (\<forall>h'. P_Strassen a b c sz level h = Inr h' \<longrightarrow>
            frame h h' c sz \<and>
            (\<forall>i j. 0 \<le> i \<and> i < sz \<and> 0 \<le> j \<and> j < sz \<longrightarrow>
               rdv h' a i j = rdv h a i j \<and> rdv h' b i j = rdv h b i j))"
proof -
  let ?h' = "fill h (baseAddr c) (window c sz)
               (\<lambda>r c'. matprod (rdv h a) (rdv h b) sz (r - row0 c) (c' - col0 c))"
  have good: "frame h ?h' c sz \<and>
            (\<forall>i j. 0 \<le> i \<and> i < sz \<and> 0 \<le> j \<and> j < sz \<longrightarrow>
               rdv ?h' a i j = rdv h a i j \<and> rdv ?h' b i j = rdv h b i j)"
    using frame_fill [OF assms(1)] rdv_outside [OF assms(1,2,5,6,11)]
      rdv_outside [OF assms(1,3,7,8,12)] by simp
  have same: "frame h h c sz" by (simp add: frame_def)
  have m: "Multiplication a b c sz h = Inr ?h'"
    using assms by (intro Multiplication_fill)
  have p: "P_Strassen a b c sz level h = Inr ?h'" if "0 \<le> sz"
    using assms that by (intro PS_correct holdsI) simp_all
  have pn: "h' = h" if "sz < 0" "P_Strassen a b c sz level h = Inr h'" for h'
    using that by (rule PS_negative)
  show ?thesis
  proof (cases "0 \<le> sz")
    case True
    then show ?thesis using m p good by simp
  next
    case False
    then show ?thesis using m pn same good by auto
  qed
qed

lemma PS_H2_product:
  "P_Strassen (vw 0 2) (vw 1 2) (vw 2 2) 2 0 H2 = Inr H2_product"
  using PS_H2 by (simp add: H2_product_def)

theorem writes_only_window_of_c_witness:
  "wf_heap H2 \<and> valid H2 (vw 0 2) \<and> valid H2 (vw 1 2) \<and> valid H2 (vw 2 2)
   \<and> separate (vw 2 2) (vw 0 2) 2 \<and> separate (vw 2 2) (vw 1 2) 2
   \<and> P_Strassen (vw 0 2) (vw 1 2) (vw 2 2) 2 0 H2 = Inr H2_product
   \<and> frame H2 H2_product (vw 2 2) 2
   \<and> rdv H2_product (vw 0 2) 1 1 = rdv H2 (vw 0 2) 1 1
   \<and> rdv H2_product (vw 1 2) 0 1 = rdv H2 (vw 1 2) 0 1"
proof -
  have t: "(\<forall>h'. Multiplication (vw 0 2) (vw 1 2) (vw 2 2) 2 H2 = Inr h' \<longrightarrow>
            frame H2 h' (vw 2 2) 2 \<and>
            (\<forall>i j. 0 \<le> i \<and> i < 2 \<and> 0 \<le> j \<and> j < 2 \<longrightarrow>
               rdv h' (vw 0 2) i j = rdv H2 (vw 0 2) i j \<and> rdv h' (vw 1 2) i j = rdv H2 (vw 1 2) i j))
       \<and> (\<forall>h'. P_Strassen (vw 0 2) (vw 1 2) (vw 2 2) 2 0 H2 = Inr h' \<longrightarrow>
            frame H2 h' (vw 2 2) 2 \<and>
            (\<forall>i j. 0 \<le> i \<and> i < 2 \<and> 0 \<le> j \<and> j < 2 \<longrightarrow>
               rdv h' (vw 0 2) i j = rdv H2 (vw 0 2) i j \<and> rdv h' (vw 1 2) i j = rdv H2 (vw 1 2) i j))"
    by (rule writes_only_window_of_c [OF wf_H2 views_H2(1-3)])
      (simp_all add: views_H2 del: One_nat_def)
  from t PS_H2_product have f: "frame H2 H2_product (vw 2 2) 2" by blast
  from t PS_H2_product have
    "\<forall>i j. 0 \<le> i \<and> i < 2 \<and> 0 \<le> j \<and> j < 2 \<longrightarrow>
       rdv H2_product (vw 0 2) i j = rdv H2 (vw 0 2) i j
       \<and> rdv H2_product (vw 1 2) i j = rdv H2 (vw 1 2) i j"
    by blast
  then have "rdv H2_product (vw 0 2) 1 1 = rdv H2 (vw 0 2) 1 1
      \<and> rdv H2_product (vw 1 2) 0 1 = rdv H2 (vw 1 2) 0 1"
    by simp
  then show ?thesis using f wf_H2 views_H2 PS_H2_product by blast
qed

section \<open>The recurrence\<close>

lemma P_Strassen_body:
  fixes h :: "('a::ring) heap"
  assumes "sz \<noteq> 1" "tmod sz 2 = 0" "\<not> 1 < level"
  shows "P_Strassen a b c sz level h =
           bindE (quadrants h a (tdiv sz 2)) (\<lambda>(a11, a12, a21, a22).
           bindE (quadrants h b (tdiv sz 2)) (\<lambda>(b11, b12, b21, b22).
           bindE (quadrants h c (tdiv sz 2)) (\<lambda>qc.
           bindE (new_temps 10 (tdiv sz 2) h) (\<lambda>(s, hA).
           bindE (new_temps 7 (tdiv sz 2) hA) (\<lambda>(p, hB).
           bindE (compute_s (a11, a12, a21, a22) (b11, b12, b21, b22) s (tdiv sz 2) hB) (\<lambda>hs.
           bindE (P_Strassen a11 (s ! 0) (p ! 0) (tdiv sz 2) (level + 1) hs) (\<lambda>h1.
           bindE (P_Strassen (s ! 1) b22 (p ! 1) (tdiv sz 2) (level + 1) h1) (\<lambda>h2.
           bindE (P_Strassen (s ! 2) b11 (p ! 2) (tdiv sz 2) (level + 1) h2) (\<lambda>h3.
           bindE (P_Strassen a22 (s ! 3) (p ! 3) (tdiv sz 2) (level + 1) h3) (\<lambda>h4.
           bindE (P_Strassen (s ! 4) (s ! 5) (p ! 4) (tdiv sz 2) (level + 1) h4) (\<lambda>h5.
           bindE (P_Strassen (s ! 6) (s ! 7) (p ! 5) (tdiv sz 2) (level + 1) h5) (\<lambda>h6.
           bindE (P_Strassen (s ! 8) (s ! 9) (p ! 6) (tdiv sz 2) (level + 1) h6) (\<lambda>h7.
           bindE (combine qc p (tdiv sz 2) h7) (\<lambda>hF.
           Inr (take (length h) hF)))))))))))))))"
  by (subst P_Strassen.simps) (simp add: assms bindE_def split: sum.splits prod.splits)

text \<open>
  C2. In the recursive case of \<open>P_Strassen\<close> (size above 1 and even, level at most 1), with
  \<open>n = size / 2\<close>. First, for every input: the call is the sequence of the three
  partitions into quadrants, the allocation of the ten temporaries \<open>s\<close> and the seven
  temporaries \<open>p\<close>, \<open>compute_s\<close>, the seven calls of \<open>P_Strassen\<close> at \<open>level + 1\<close> on the
  operands \<open>(a11, s1)\<close>, \<open>(s2, b22)\<close>, \<open>(s3, b11)\<close>, \<open>(a22, s4)\<close>, \<open>(s5, s6)\<close>, \<open>(s7, s8)\<close>,
  \<open>(s9, s10)\<close> with targets \<open>p1\<close>, ..., \<open>p7\<close>, each on the heap the one before returned,
  and \<open>combine\<close>; an exception of a step is the result of the call. Second, on valid
  views of extent at least the size every step returns, and: the quadrants are the
  views \<open>q11\<close>, \<open>q12\<close>, \<open>q21\<close>, \<open>q22\<close>; \<open>compute_s\<close> leaves in \<open>s ! 0\<close>, ..., \<open>s ! 9\<close> the
  sums and differences \<open>b12 - b22\<close>, \<open>a11 + a12\<close>, \<open>a21 + a22\<close>, \<open>b21 - b11\<close>, \<open>a11 + a22\<close>,
  \<open>b11 + b22\<close>, \<open>a12 - a22\<close>, \<open>b21 + b22\<close>, \<open>a11 - a21\<close>, \<open>b11 + b12\<close>; the first call is in
  the call relation of the function, on the heap that \<open>compute_s\<close> returned, and every
  call in that relation has size \<open>n\<close>, level \<open>level + 1\<close> and one of the seven triples of
  operands and target; the calls leave the seven matrix products in \<open>p ! 0\<close>, ...,
  \<open>p ! 6\<close>; \<open>combine\<close> writes \<open>c11 = p5 + p4 - p2 + p6\<close>, \<open>c12 = p1 + p2\<close>, \<open>c21 = p3 + p4\<close>,
  \<open>c22 = p5 + p1 - p3 - p7\<close> (the spec counts from 1, the lists from 0), and the call
  returns the heap without the temporaries.
\<close>

theorem strassen_recurrence:
  fixes h :: "('a::ring) heap"
  assumes "1 < sz" and "2 dvd sz" and "level \<le> 1" and "n = tdiv sz 2"
  shows "(P_Strassen a b c sz level h =
           bindE (quadrants h a n) (\<lambda>(a11, a12, a21, a22).
           bindE (quadrants h b n) (\<lambda>(b11, b12, b21, b22).
           bindE (quadrants h c n) (\<lambda>qc.
           bindE (new_temps 10 n h) (\<lambda>(s, hA).
           bindE (new_temps 7 n hA) (\<lambda>(p, hB).
           bindE (compute_s (a11, a12, a21, a22) (b11, b12, b21, b22) s n hB) (\<lambda>hs.
           bindE (P_Strassen a11 (s ! 0) (p ! 0) n (level + 1) hs) (\<lambda>h1.
           bindE (P_Strassen (s ! 1) b22 (p ! 1) n (level + 1) h1) (\<lambda>h2.
           bindE (P_Strassen (s ! 2) b11 (p ! 2) n (level + 1) h2) (\<lambda>h3.
           bindE (P_Strassen a22 (s ! 3) (p ! 3) n (level + 1) h3) (\<lambda>h4.
           bindE (P_Strassen (s ! 4) (s ! 5) (p ! 4) n (level + 1) h4) (\<lambda>h5.
           bindE (P_Strassen (s ! 6) (s ! 7) (p ! 5) n (level + 1) h5) (\<lambda>h6.
           bindE (P_Strassen (s ! 8) (s ! 9) (p ! 6) n (level + 1) h6) (\<lambda>h7.
           bindE (combine qc p n h7) (\<lambda>hF.
           Inr (take (length h) hF))))))))))))))))
       \<and> (wf_heap h \<and> valid h a \<and> valid h b \<and> valid h c
          \<and> sz \<le> extRows h a \<and> sz \<le> extCols h a
          \<and> sz \<le> extRows h b \<and> sz \<le> extCols h b
          \<and> sz \<le> extRows h c \<and> sz \<le> extCols h c \<longrightarrow>
          (\<exists>s p hA hB hs h1 h2 h3 h4 h5 h6 h7 hF h'.
         quadrants h a n = Inr (q11 a n, q12 a n, q21 a n, q22 a n)
       \<and> quadrants h b n = Inr (q11 b n, q12 b n, q21 b n, q22 b n)
       \<and> quadrants h c n = Inr (q11 c n, q12 c n, q21 c n, q22 c n)
       \<and> new_temps 10 n h = Inr (s, hA)
       \<and> new_temps 7 n hA = Inr (p, hB)
       \<and> length s = 10
       \<and> length p = 7
       \<and> compute_s (q11 a n, q12 a n, q21 a n, q22 a n) (q11 b n, q12 b n, q21 b n, q22 b n) s n hB = Inr hs
       \<and> (\<forall>i j. 0 \<le> i \<and> i < n \<and> 0 \<le> j \<and> j < n \<longrightarrow>
             rdv hs (s ! 0) i j = rdv h (q12 b n) i j - rdv h (q22 b n) i j
           \<and> rdv hs (s ! 1) i j = rdv h (q11 a n) i j + rdv h (q12 a n) i j
           \<and> rdv hs (s ! 2) i j = rdv h (q21 a n) i j + rdv h (q22 a n) i j
           \<and> rdv hs (s ! 3) i j = rdv h (q21 b n) i j - rdv h (q11 b n) i j
           \<and> rdv hs (s ! 4) i j = rdv h (q11 a n) i j + rdv h (q22 a n) i j
           \<and> rdv hs (s ! 5) i j = rdv h (q11 b n) i j + rdv h (q22 b n) i j
           \<and> rdv hs (s ! 6) i j = rdv h (q12 a n) i j - rdv h (q22 a n) i j
           \<and> rdv hs (s ! 7) i j = rdv h (q21 b n) i j + rdv h (q22 b n) i j
           \<and> rdv hs (s ! 8) i j = rdv h (q11 a n) i j - rdv h (q21 a n) i j
           \<and> rdv hs (s ! 9) i j = rdv h (q11 b n) i j + rdv h (q12 b n) i j)
       \<and> P_Strassen_rel (q11 a n, s ! 0, p ! 0, n, level + 1, hs) (a, b, c, sz, level, h)
       \<and> (\<forall>x y z m l (H :: 'a heap). P_Strassen_rel (x, y, z, m, l, H) (a, b, c, sz, level, h) \<longrightarrow>
             m = n \<and> l = level + 1 \<and>
             (x, y, z) \<in> {(q11 a n, s ! 0, p ! 0), (s ! 1, q22 b n, p ! 1), (s ! 2, q11 b n, p ! 2),
                          (q22 a n, s ! 3, p ! 3), (s ! 4, s ! 5, p ! 4), (s ! 6, s ! 7, p ! 5),
                          (s ! 8, s ! 9, p ! 6)})
       \<and> P_Strassen (q11 a n) (s ! 0) (p ! 0) n (level + 1) hs = Inr h1
       \<and> P_Strassen (s ! 1) (q22 b n) (p ! 1) n (level + 1) h1 = Inr h2
       \<and> P_Strassen (s ! 2) (q11 b n) (p ! 2) n (level + 1) h2 = Inr h3
       \<and> P_Strassen (q22 a n) (s ! 3) (p ! 3) n (level + 1) h3 = Inr h4
       \<and> P_Strassen (s ! 4) (s ! 5) (p ! 4) n (level + 1) h4 = Inr h5
       \<and> P_Strassen (s ! 6) (s ! 7) (p ! 5) n (level + 1) h5 = Inr h6
       \<and> P_Strassen (s ! 8) (s ! 9) (p ! 6) n (level + 1) h6 = Inr h7
       \<and> (\<forall>i j. 0 \<le> i \<and> i < n \<and> 0 \<le> j \<and> j < n \<longrightarrow>
             rdv h7 (p ! 0) i j = matprod (rdv h (q11 a n)) (rdv hs (s ! 0)) n i j
           \<and> rdv h7 (p ! 1) i j = matprod (rdv hs (s ! 1)) (rdv h (q22 b n)) n i j
           \<and> rdv h7 (p ! 2) i j = matprod (rdv hs (s ! 2)) (rdv h (q11 b n)) n i j
           \<and> rdv h7 (p ! 3) i j = matprod (rdv h (q22 a n)) (rdv hs (s ! 3)) n i j
           \<and> rdv h7 (p ! 4) i j = matprod (rdv hs (s ! 4)) (rdv hs (s ! 5)) n i j
           \<and> rdv h7 (p ! 5) i j = matprod (rdv hs (s ! 6)) (rdv hs (s ! 7)) n i j
           \<and> rdv h7 (p ! 6) i j = matprod (rdv hs (s ! 8)) (rdv hs (s ! 9)) n i j)
       \<and> combine (q11 c n, q12 c n, q21 c n, q22 c n) p n h7 = Inr hF
       \<and> h' = take (length h) hF
       \<and> P_Strassen a b c sz level h = Inr h'
       \<and> (\<forall>i j. 0 \<le> i \<and> i < n \<and> 0 \<le> j \<and> j < n \<longrightarrow>
             rdv h' (q11 c n) i j = rdv h7 (p ! 4) i j + rdv h7 (p ! 3) i j - rdv h7 (p ! 1) i j + rdv h7 (p ! 5) i j
           \<and> rdv h' (q12 c n) i j = rdv h7 (p ! 0) i j + rdv h7 (p ! 1) i j
           \<and> rdv h' (q21 c n) i j = rdv h7 (p ! 2) i j + rdv h7 (p ! 3) i j
           \<and> rdv h' (q22 c n) i j = rdv h7 (p ! 4) i j + rdv h7 (p ! 0) i j - rdv h7 (p ! 2) i j - rdv h7 (p ! 6) i j)))"
proof -
  have c: "sz \<noteq> 1" "tmod sz 2 = 0" "\<not> 1 < level"
    using assms tmod_2 [of sz] by simp_all
  have 1: "P_Strassen a b c sz level h =
           bindE (quadrants h a n) (\<lambda>(a11, a12, a21, a22).
           bindE (quadrants h b n) (\<lambda>(b11, b12, b21, b22).
           bindE (quadrants h c n) (\<lambda>qc.
           bindE (new_temps 10 n h) (\<lambda>(s, hA).
           bindE (new_temps 7 n hA) (\<lambda>(p, hB).
           bindE (compute_s (a11, a12, a21, a22) (b11, b12, b21, b22) s n hB) (\<lambda>hs.
           bindE (P_Strassen a11 (s ! 0) (p ! 0) n (level + 1) hs) (\<lambda>h1.
           bindE (P_Strassen (s ! 1) b22 (p ! 1) n (level + 1) h1) (\<lambda>h2.
           bindE (P_Strassen (s ! 2) b11 (p ! 2) n (level + 1) h2) (\<lambda>h3.
           bindE (P_Strassen a22 (s ! 3) (p ! 3) n (level + 1) h3) (\<lambda>h4.
           bindE (P_Strassen (s ! 4) (s ! 5) (p ! 4) n (level + 1) h4) (\<lambda>h5.
           bindE (P_Strassen (s ! 6) (s ! 7) (p ! 5) n (level + 1) h5) (\<lambda>h6.
           bindE (P_Strassen (s ! 8) (s ! 9) (p ! 6) n (level + 1) h6) (\<lambda>h7.
           bindE (combine qc p n h7) (\<lambda>hF.
           Inr (take (length h) hF)))))))))))))))"
    unfolding assms(4) by (rule P_Strassen_body [OF c])
  have 2: "\<exists>s p hA hB hs h1 h2 h3 h4 h5 h6 h7 hF h'.
         quadrants h a n = Inr (q11 a n, q12 a n, q21 a n, q22 a n)
       \<and> quadrants h b n = Inr (q11 b n, q12 b n, q21 b n, q22 b n)
       \<and> quadrants h c n = Inr (q11 c n, q12 c n, q21 c n, q22 c n)
       \<and> new_temps 10 n h = Inr (s, hA)
       \<and> new_temps 7 n hA = Inr (p, hB)
       \<and> length s = 10
       \<and> length p = 7
       \<and> compute_s (q11 a n, q12 a n, q21 a n, q22 a n) (q11 b n, q12 b n, q21 b n, q22 b n) s n hB = Inr hs
       \<and> (\<forall>i j. 0 \<le> i \<and> i < n \<and> 0 \<le> j \<and> j < n \<longrightarrow>
             rdv hs (s ! 0) i j = rdv h (q12 b n) i j - rdv h (q22 b n) i j
           \<and> rdv hs (s ! 1) i j = rdv h (q11 a n) i j + rdv h (q12 a n) i j
           \<and> rdv hs (s ! 2) i j = rdv h (q21 a n) i j + rdv h (q22 a n) i j
           \<and> rdv hs (s ! 3) i j = rdv h (q21 b n) i j - rdv h (q11 b n) i j
           \<and> rdv hs (s ! 4) i j = rdv h (q11 a n) i j + rdv h (q22 a n) i j
           \<and> rdv hs (s ! 5) i j = rdv h (q11 b n) i j + rdv h (q22 b n) i j
           \<and> rdv hs (s ! 6) i j = rdv h (q12 a n) i j - rdv h (q22 a n) i j
           \<and> rdv hs (s ! 7) i j = rdv h (q21 b n) i j + rdv h (q22 b n) i j
           \<and> rdv hs (s ! 8) i j = rdv h (q11 a n) i j - rdv h (q21 a n) i j
           \<and> rdv hs (s ! 9) i j = rdv h (q11 b n) i j + rdv h (q12 b n) i j)
       \<and> P_Strassen_rel (q11 a n, s ! 0, p ! 0, n, level + 1, hs) (a, b, c, sz, level, h)
       \<and> (\<forall>x y z m l (H :: 'a heap). P_Strassen_rel (x, y, z, m, l, H) (a, b, c, sz, level, h) \<longrightarrow>
             m = n \<and> l = level + 1 \<and>
             (x, y, z) \<in> {(q11 a n, s ! 0, p ! 0), (s ! 1, q22 b n, p ! 1), (s ! 2, q11 b n, p ! 2),
                          (q22 a n, s ! 3, p ! 3), (s ! 4, s ! 5, p ! 4), (s ! 6, s ! 7, p ! 5),
                          (s ! 8, s ! 9, p ! 6)})
       \<and> P_Strassen (q11 a n) (s ! 0) (p ! 0) n (level + 1) hs = Inr h1
       \<and> P_Strassen (s ! 1) (q22 b n) (p ! 1) n (level + 1) h1 = Inr h2
       \<and> P_Strassen (s ! 2) (q11 b n) (p ! 2) n (level + 1) h2 = Inr h3
       \<and> P_Strassen (q22 a n) (s ! 3) (p ! 3) n (level + 1) h3 = Inr h4
       \<and> P_Strassen (s ! 4) (s ! 5) (p ! 4) n (level + 1) h4 = Inr h5
       \<and> P_Strassen (s ! 6) (s ! 7) (p ! 5) n (level + 1) h5 = Inr h6
       \<and> P_Strassen (s ! 8) (s ! 9) (p ! 6) n (level + 1) h6 = Inr h7
       \<and> (\<forall>i j. 0 \<le> i \<and> i < n \<and> 0 \<le> j \<and> j < n \<longrightarrow>
             rdv h7 (p ! 0) i j = matprod (rdv h (q11 a n)) (rdv hs (s ! 0)) n i j
           \<and> rdv h7 (p ! 1) i j = matprod (rdv hs (s ! 1)) (rdv h (q22 b n)) n i j
           \<and> rdv h7 (p ! 2) i j = matprod (rdv hs (s ! 2)) (rdv h (q11 b n)) n i j
           \<and> rdv h7 (p ! 3) i j = matprod (rdv h (q22 a n)) (rdv hs (s ! 3)) n i j
           \<and> rdv h7 (p ! 4) i j = matprod (rdv hs (s ! 4)) (rdv hs (s ! 5)) n i j
           \<and> rdv h7 (p ! 5) i j = matprod (rdv hs (s ! 6)) (rdv hs (s ! 7)) n i j
           \<and> rdv h7 (p ! 6) i j = matprod (rdv hs (s ! 8)) (rdv hs (s ! 9)) n i j)
       \<and> combine (q11 c n, q12 c n, q21 c n, q22 c n) p n h7 = Inr hF
       \<and> h' = take (length h) hF
       \<and> P_Strassen a b c sz level h = Inr h'
       \<and> (\<forall>i j. 0 \<le> i \<and> i < n \<and> 0 \<le> j \<and> j < n \<longrightarrow>
             rdv h' (q11 c n) i j = rdv h7 (p ! 4) i j + rdv h7 (p ! 3) i j - rdv h7 (p ! 1) i j + rdv h7 (p ! 5) i j
           \<and> rdv h' (q12 c n) i j = rdv h7 (p ! 0) i j + rdv h7 (p ! 1) i j
           \<and> rdv h' (q21 c n) i j = rdv h7 (p ! 2) i j + rdv h7 (p ! 3) i j
           \<and> rdv h' (q22 c n) i j = rdv h7 (p ! 4) i j + rdv h7 (p ! 0) i j - rdv h7 (p ! 2) i j - rdv h7 (p ! 6) i j)"
    if v: "wf_heap h \<and> valid h a \<and> valid h b \<and> valid h c
          \<and> sz \<le> extRows h a \<and> sz \<le> extCols h a
          \<and> sz \<le> extRows h b \<and> sz \<le> extCols h b
          \<and> sz \<le> extRows h c \<and> sz \<le> extCols h c"
  proof -
    have ha: "holds h a sz (rdv h a)" and hb: "holds h b sz (rdv h b)" and hc: "holds h c sz (rdv h c)"
      using v by (simp_all add: holdsI)
    have wf: "wf_heap h" using v by simp
    have s0: "0 \<le> sz" using assms(1) by simp
    show ?thesis
      by (rule PS_step_trace [THEN conjunct2, OF PS_correct wf ha hb hc s0 assms(2-4)])
  qed
  from 1 2 show ?thesis by blast
qed

lemma H2_new_temps:
  "new_temps 10 1 H2 = Inr ((map (\<lambda>i. vw (3 + i) 1) [0..<10]), H2 @ replicate 10 \<lparr>rows = 1, cols = 1, data = [0]\<rparr>)"
  "new_temps 7 1 (H2 @ replicate 10 \<lparr>rows = 1, cols = 1, data = [0]\<rparr>) = Inr ((map (\<lambda>i. vw (13 + i) 1) [0..<7]), H2 @ replicate 17 \<lparr>rows = 1, cols = 1, data = [0]\<rparr>)"
  by code_simp+

lemma H2_compute_s:
  "compute_s (q11 (vw 0 2) 1, q12 (vw 0 2) 1, q21 (vw 0 2) 1, q22 (vw 0 2) 1)
     (q11 (vw 1 2) 1, q12 (vw 1 2) 1, q21 (vw 1 2) 1, q22 (vw 1 2) 1)
     (map (\<lambda>i. vw (3 + i) 1) [0..<10]) 1 (H2 @ replicate 17 \<lparr>rows = 1, cols = 1, data = [0]\<rparr>) = Inr (H2_tmp 0)"
  by code_simp

lemma H2_calls:
  "P_Strassen (q11 (vw 0 2) 1) (vw 3 1) (vw 13 1) 1 1 (H2_tmp 0) = Inr (H2_tmp 1)"
  "P_Strassen (vw 4 1) (q22 (vw 1 2) 1) (vw 14 1) 1 1 (H2_tmp 1) = Inr (H2_tmp 2)"
  "P_Strassen (vw 5 1) (q11 (vw 1 2) 1) (vw 15 1) 1 1 (H2_tmp 2) = Inr (H2_tmp 3)"
  "P_Strassen (q22 (vw 0 2) 1) (vw 6 1) (vw 16 1) 1 1 (H2_tmp 3) = Inr (H2_tmp 4)"
  "P_Strassen (vw 7 1) (vw 8 1) (vw 17 1) 1 1 (H2_tmp 4) = Inr (H2_tmp 5)"
  "P_Strassen (vw 9 1) (vw 10 1) (vw 18 1) 1 1 (H2_tmp 5) = Inr (H2_tmp 6)"
  "P_Strassen (vw 11 1) (vw 12 1) (vw 19 1) 1 1 (H2_tmp 6) = Inr (H2_tmp 7)"
  by code_simp+

lemma H2_combine:
  "combine (q11 (vw 2 2) 1, q12 (vw 2 2) 1, q21 (vw 2 2) 1, q22 (vw 2 2) 1)
     (map (\<lambda>i. vw (13 + i) 1) [0..<7]) 1 (H2_tmp 7) = Inr (H2_product @ drop 3 (H2_tmp 7))"
  by code_simp

theorem strassen_recurrence_witness:
  "(1::int) < 2 \<and> (2::int) dvd 2 \<and> (0::int) \<le> 1 \<and> (1::int) = tdiv 2 2
   \<and> wf_heap H2 \<and> valid H2 (vw 0 2) \<and> valid H2 (vw 1 2) \<and> valid H2 (vw 2 2)
   \<and> P_Strassen_rel (q11 (vw 0 2) 1, vw 3 1, vw 13 1, 1, 1, H2_tmp 0)
                      (vw 0 2, vw 1 2, vw 2 2, 2, 0, H2)
   \<and> rdv (H2_tmp 0) (vw 3 1) 0 0 = rdv H2 (q12 (vw 1 2) 1) 0 0 - rdv H2 (q22 (vw 1 2) 1) 0 0
   \<and> rdv (H2_tmp 0) (vw 3 1) 0 0 = - 2
   \<and> P_Strassen (q11 (vw 0 2) 1) (vw 3 1) (vw 13 1) 1 1 (H2_tmp 0) = Inr (H2_tmp 1)
   \<and> P_Strassen (vw 4 1) (q22 (vw 1 2) 1) (vw 14 1) 1 1 (H2_tmp 1) = Inr (H2_tmp 2)
   \<and> P_Strassen (vw 5 1) (q11 (vw 1 2) 1) (vw 15 1) 1 1 (H2_tmp 2) = Inr (H2_tmp 3)
   \<and> P_Strassen (q22 (vw 0 2) 1) (vw 6 1) (vw 16 1) 1 1 (H2_tmp 3) = Inr (H2_tmp 4)
   \<and> P_Strassen (vw 7 1) (vw 8 1) (vw 17 1) 1 1 (H2_tmp 4) = Inr (H2_tmp 5)
   \<and> P_Strassen (vw 9 1) (vw 10 1) (vw 18 1) 1 1 (H2_tmp 5) = Inr (H2_tmp 6)
   \<and> P_Strassen (vw 11 1) (vw 12 1) (vw 19 1) 1 1 (H2_tmp 6) = Inr (H2_tmp 7)
   \<and> rdv (H2_tmp 7) (vw 13 1) 0 0 = - 2 \<and> rdv (H2_tmp 7) (vw 14 1) 0 0 = 24
   \<and> P_Strassen (vw 0 2) (vw 1 2) (vw 2 2) 2 0 H2 = Inr H2_product
   \<and> rdv H2_product (q12 (vw 2 2) 1) 0 0 = rdv (H2_tmp 7) (vw 13 1) 0 0 + rdv (H2_tmp 7) (vw 14 1) 0 0
   \<and> rdv H2_product (q12 (vw 2 2) 1) 0 0 = 22"
proof -
  have n: "(1::int) = tdiv 2 2" by (simp add: tdiv_def)
  have a: "(1::int) < 2" "(2::int) dvd 2" "(0::int) \<le> 1" by simp_all
  note t = strassen_recurrence [OF a n, of "vw 0 2" "vw 1 2" "vw 2 2" H2]
  have v: "wf_heap H2 \<and> valid H2 (vw 0 2) \<and> valid H2 (vw 1 2) \<and> valid H2 (vw 2 2)
          \<and> 2 \<le> extRows H2 (vw 0 2) \<and> 2 \<le> extCols H2 (vw 0 2)
          \<and> 2 \<le> extRows H2 (vw 1 2) \<and> 2 \<le> extCols H2 (vw 1 2)
          \<and> 2 \<le> extRows H2 (vw 2 2) \<and> 2 \<le> extCols H2 (vw 2 2)"
    using wf_H2 views_H2 by (simp del: One_nat_def)
  from t v have "\<exists>s p hA hB hs h1 h2 h3 h4 h5 h6 h7 hF h'.
         quadrants H2 (vw 0 2) 1 = Inr (q11 (vw 0 2) 1, q12 (vw 0 2) 1, q21 (vw 0 2) 1, q22 (vw 0 2) 1)
       \<and> quadrants H2 (vw 1 2) 1 = Inr (q11 (vw 1 2) 1, q12 (vw 1 2) 1, q21 (vw 1 2) 1, q22 (vw 1 2) 1)
       \<and> quadrants H2 (vw 2 2) 1 = Inr (q11 (vw 2 2) 1, q12 (vw 2 2) 1, q21 (vw 2 2) 1, q22 (vw 2 2) 1)
       \<and> new_temps 10 1 H2 = Inr (s, hA)
       \<and> new_temps 7 1 hA = Inr (p, hB)
       \<and> length s = 10
       \<and> length p = 7
       \<and> compute_s (q11 (vw 0 2) 1, q12 (vw 0 2) 1, q21 (vw 0 2) 1, q22 (vw 0 2) 1) (q11 (vw 1 2) 1, q12 (vw 1 2) 1, q21 (vw 1 2) 1, q22 (vw 1 2) 1) s 1 hB = Inr hs
       \<and> (\<forall>i j. 0 \<le> i \<and> i < 1 \<and> 0 \<le> j \<and> j < 1 \<longrightarrow>
             rdv hs (s ! 0) i j = rdv H2 (q12 (vw 1 2) 1) i j - rdv H2 (q22 (vw 1 2) 1) i j
           \<and> rdv hs (s ! 1) i j = rdv H2 (q11 (vw 0 2) 1) i j + rdv H2 (q12 (vw 0 2) 1) i j
           \<and> rdv hs (s ! 2) i j = rdv H2 (q21 (vw 0 2) 1) i j + rdv H2 (q22 (vw 0 2) 1) i j
           \<and> rdv hs (s ! 3) i j = rdv H2 (q21 (vw 1 2) 1) i j - rdv H2 (q11 (vw 1 2) 1) i j
           \<and> rdv hs (s ! 4) i j = rdv H2 (q11 (vw 0 2) 1) i j + rdv H2 (q22 (vw 0 2) 1) i j
           \<and> rdv hs (s ! 5) i j = rdv H2 (q11 (vw 1 2) 1) i j + rdv H2 (q22 (vw 1 2) 1) i j
           \<and> rdv hs (s ! 6) i j = rdv H2 (q12 (vw 0 2) 1) i j - rdv H2 (q22 (vw 0 2) 1) i j
           \<and> rdv hs (s ! 7) i j = rdv H2 (q21 (vw 1 2) 1) i j + rdv H2 (q22 (vw 1 2) 1) i j
           \<and> rdv hs (s ! 8) i j = rdv H2 (q11 (vw 0 2) 1) i j - rdv H2 (q21 (vw 0 2) 1) i j
           \<and> rdv hs (s ! 9) i j = rdv H2 (q11 (vw 1 2) 1) i j + rdv H2 (q12 (vw 1 2) 1) i j)
       \<and> P_Strassen_rel (q11 (vw 0 2) 1, s ! 0, p ! 0, 1, 0 + 1, hs) ((vw 0 2), (vw 1 2), (vw 2 2), 2, 0, H2)
       \<and> (\<forall>x y z m l (H :: int heap). P_Strassen_rel (x, y, z, m, l, H) ((vw 0 2), (vw 1 2), (vw 2 2), 2, 0, H2) \<longrightarrow>
             m = 1 \<and> l = 0 + 1 \<and>
             (x, y, z) \<in> {(q11 (vw 0 2) 1, s ! 0, p ! 0), (s ! 1, q22 (vw 1 2) 1, p ! 1), (s ! 2, q11 (vw 1 2) 1, p ! 2),
                          (q22 (vw 0 2) 1, s ! 3, p ! 3), (s ! 4, s ! 5, p ! 4), (s ! 6, s ! 7, p ! 5),
                          (s ! 8, s ! 9, p ! 6)})
       \<and> P_Strassen (q11 (vw 0 2) 1) (s ! 0) (p ! 0) 1 (0 + 1) hs = Inr h1
       \<and> P_Strassen (s ! 1) (q22 (vw 1 2) 1) (p ! 1) 1 (0 + 1) h1 = Inr h2
       \<and> P_Strassen (s ! 2) (q11 (vw 1 2) 1) (p ! 2) 1 (0 + 1) h2 = Inr h3
       \<and> P_Strassen (q22 (vw 0 2) 1) (s ! 3) (p ! 3) 1 (0 + 1) h3 = Inr h4
       \<and> P_Strassen (s ! 4) (s ! 5) (p ! 4) 1 (0 + 1) h4 = Inr h5
       \<and> P_Strassen (s ! 6) (s ! 7) (p ! 5) 1 (0 + 1) h5 = Inr h6
       \<and> P_Strassen (s ! 8) (s ! 9) (p ! 6) 1 (0 + 1) h6 = Inr h7
       \<and> (\<forall>i j. 0 \<le> i \<and> i < 1 \<and> 0 \<le> j \<and> j < 1 \<longrightarrow>
             rdv h7 (p ! 0) i j = matprod (rdv H2 (q11 (vw 0 2) 1)) (rdv hs (s ! 0)) 1 i j
           \<and> rdv h7 (p ! 1) i j = matprod (rdv hs (s ! 1)) (rdv H2 (q22 (vw 1 2) 1)) 1 i j
           \<and> rdv h7 (p ! 2) i j = matprod (rdv hs (s ! 2)) (rdv H2 (q11 (vw 1 2) 1)) 1 i j
           \<and> rdv h7 (p ! 3) i j = matprod (rdv H2 (q22 (vw 0 2) 1)) (rdv hs (s ! 3)) 1 i j
           \<and> rdv h7 (p ! 4) i j = matprod (rdv hs (s ! 4)) (rdv hs (s ! 5)) 1 i j
           \<and> rdv h7 (p ! 5) i j = matprod (rdv hs (s ! 6)) (rdv hs (s ! 7)) 1 i j
           \<and> rdv h7 (p ! 6) i j = matprod (rdv hs (s ! 8)) (rdv hs (s ! 9)) 1 i j)
       \<and> combine (q11 (vw 2 2) 1, q12 (vw 2 2) 1, q21 (vw 2 2) 1, q22 (vw 2 2) 1) p 1 h7 = Inr hF
       \<and> h' = take (length H2) hF
       \<and> P_Strassen (vw 0 2) (vw 1 2) (vw 2 2) 2 0 H2 = Inr h'
       \<and> (\<forall>i j. 0 \<le> i \<and> i < 1 \<and> 0 \<le> j \<and> j < 1 \<longrightarrow>
             rdv h' (q11 (vw 2 2) 1) i j = rdv h7 (p ! 4) i j + rdv h7 (p ! 3) i j - rdv h7 (p ! 1) i j + rdv h7 (p ! 5) i j
           \<and> rdv h' (q12 (vw 2 2) 1) i j = rdv h7 (p ! 0) i j + rdv h7 (p ! 1) i j
           \<and> rdv h' (q21 (vw 2 2) 1) i j = rdv h7 (p ! 2) i j + rdv h7 (p ! 3) i j
           \<and> rdv h' (q22 (vw 2 2) 1) i j = rdv h7 (p ! 4) i j + rdv h7 (p ! 0) i j - rdv h7 (p ! 2) i j - rdv h7 (p ! 6) i j)"
    by blast
  then obtain s p hA hB hs h1 h2 h3 h4 h5 h6 h7 hF h' where
    f0: "quadrants H2 (vw 0 2) 1 = Inr (q11 (vw 0 2) 1, q12 (vw 0 2) 1, q21 (vw 0 2) 1, q22 (vw 0 2) 1)"
    and f1: "quadrants H2 (vw 1 2) 1 = Inr (q11 (vw 1 2) 1, q12 (vw 1 2) 1, q21 (vw 1 2) 1, q22 (vw 1 2) 1)"
    and f2: "quadrants H2 (vw 2 2) 1 = Inr (q11 (vw 2 2) 1, q12 (vw 2 2) 1, q21 (vw 2 2) 1, q22 (vw 2 2) 1)"
    and f3: "new_temps 10 1 H2 = Inr (s, hA)"
    and f4: "new_temps 7 1 hA = Inr (p, hB)"
    and f5: "length s = 10"
    and f6: "length p = 7"
    and f7: "compute_s (q11 (vw 0 2) 1, q12 (vw 0 2) 1, q21 (vw 0 2) 1, q22 (vw 0 2) 1) (q11 (vw 1 2) 1, q12 (vw 1 2) 1, q21 (vw 1 2) 1, q22 (vw 1 2) 1) s 1 hB = Inr hs"
    and f8: "(\<forall>i j. 0 \<le> i \<and> i < 1 \<and> 0 \<le> j \<and> j < 1 \<longrightarrow>
             rdv hs (s ! 0) i j = rdv H2 (q12 (vw 1 2) 1) i j - rdv H2 (q22 (vw 1 2) 1) i j
           \<and> rdv hs (s ! 1) i j = rdv H2 (q11 (vw 0 2) 1) i j + rdv H2 (q12 (vw 0 2) 1) i j
           \<and> rdv hs (s ! 2) i j = rdv H2 (q21 (vw 0 2) 1) i j + rdv H2 (q22 (vw 0 2) 1) i j
           \<and> rdv hs (s ! 3) i j = rdv H2 (q21 (vw 1 2) 1) i j - rdv H2 (q11 (vw 1 2) 1) i j
           \<and> rdv hs (s ! 4) i j = rdv H2 (q11 (vw 0 2) 1) i j + rdv H2 (q22 (vw 0 2) 1) i j
           \<and> rdv hs (s ! 5) i j = rdv H2 (q11 (vw 1 2) 1) i j + rdv H2 (q22 (vw 1 2) 1) i j
           \<and> rdv hs (s ! 6) i j = rdv H2 (q12 (vw 0 2) 1) i j - rdv H2 (q22 (vw 0 2) 1) i j
           \<and> rdv hs (s ! 7) i j = rdv H2 (q21 (vw 1 2) 1) i j + rdv H2 (q22 (vw 1 2) 1) i j
           \<and> rdv hs (s ! 8) i j = rdv H2 (q11 (vw 0 2) 1) i j - rdv H2 (q21 (vw 0 2) 1) i j
           \<and> rdv hs (s ! 9) i j = rdv H2 (q11 (vw 1 2) 1) i j + rdv H2 (q12 (vw 1 2) 1) i j)"
    and f9: "P_Strassen_rel (q11 (vw 0 2) 1, s ! 0, p ! 0, 1, 0 + 1, hs) ((vw 0 2), (vw 1 2), (vw 2 2), 2, 0, H2)"
    and f10: "(\<forall>x y z m l (H :: int heap). P_Strassen_rel (x, y, z, m, l, H) ((vw 0 2), (vw 1 2), (vw 2 2), 2, 0, H2) \<longrightarrow>
             m = 1 \<and> l = 0 + 1 \<and>
             (x, y, z) \<in> {(q11 (vw 0 2) 1, s ! 0, p ! 0), (s ! 1, q22 (vw 1 2) 1, p ! 1), (s ! 2, q11 (vw 1 2) 1, p ! 2),
                          (q22 (vw 0 2) 1, s ! 3, p ! 3), (s ! 4, s ! 5, p ! 4), (s ! 6, s ! 7, p ! 5),
                          (s ! 8, s ! 9, p ! 6)})"
    and f11: "P_Strassen (q11 (vw 0 2) 1) (s ! 0) (p ! 0) 1 (0 + 1) hs = Inr h1"
    and f12: "P_Strassen (s ! 1) (q22 (vw 1 2) 1) (p ! 1) 1 (0 + 1) h1 = Inr h2"
    and f13: "P_Strassen (s ! 2) (q11 (vw 1 2) 1) (p ! 2) 1 (0 + 1) h2 = Inr h3"
    and f14: "P_Strassen (q22 (vw 0 2) 1) (s ! 3) (p ! 3) 1 (0 + 1) h3 = Inr h4"
    and f15: "P_Strassen (s ! 4) (s ! 5) (p ! 4) 1 (0 + 1) h4 = Inr h5"
    and f16: "P_Strassen (s ! 6) (s ! 7) (p ! 5) 1 (0 + 1) h5 = Inr h6"
    and f17: "P_Strassen (s ! 8) (s ! 9) (p ! 6) 1 (0 + 1) h6 = Inr h7"
    and f18: "(\<forall>i j. 0 \<le> i \<and> i < 1 \<and> 0 \<le> j \<and> j < 1 \<longrightarrow>
             rdv h7 (p ! 0) i j = matprod (rdv H2 (q11 (vw 0 2) 1)) (rdv hs (s ! 0)) 1 i j
           \<and> rdv h7 (p ! 1) i j = matprod (rdv hs (s ! 1)) (rdv H2 (q22 (vw 1 2) 1)) 1 i j
           \<and> rdv h7 (p ! 2) i j = matprod (rdv hs (s ! 2)) (rdv H2 (q11 (vw 1 2) 1)) 1 i j
           \<and> rdv h7 (p ! 3) i j = matprod (rdv H2 (q22 (vw 0 2) 1)) (rdv hs (s ! 3)) 1 i j
           \<and> rdv h7 (p ! 4) i j = matprod (rdv hs (s ! 4)) (rdv hs (s ! 5)) 1 i j
           \<and> rdv h7 (p ! 5) i j = matprod (rdv hs (s ! 6)) (rdv hs (s ! 7)) 1 i j
           \<and> rdv h7 (p ! 6) i j = matprod (rdv hs (s ! 8)) (rdv hs (s ! 9)) 1 i j)"
    and f19: "combine (q11 (vw 2 2) 1, q12 (vw 2 2) 1, q21 (vw 2 2) 1, q22 (vw 2 2) 1) p 1 h7 = Inr hF"
    and f20: "h' = take (length H2) hF"
    and f21: "P_Strassen (vw 0 2) (vw 1 2) (vw 2 2) 2 0 H2 = Inr h'"
    and f22: "(\<forall>i j. 0 \<le> i \<and> i < 1 \<and> 0 \<le> j \<and> j < 1 \<longrightarrow>
             rdv h' (q11 (vw 2 2) 1) i j = rdv h7 (p ! 4) i j + rdv h7 (p ! 3) i j - rdv h7 (p ! 1) i j + rdv h7 (p ! 5) i j
           \<and> rdv h' (q12 (vw 2 2) 1) i j = rdv h7 (p ! 0) i j + rdv h7 (p ! 1) i j
           \<and> rdv h' (q21 (vw 2 2) 1) i j = rdv h7 (p ! 2) i j + rdv h7 (p ! 3) i j
           \<and> rdv h' (q22 (vw 2 2) 1) i j = rdv h7 (p ! 4) i j + rdv h7 (p ! 0) i j - rdv h7 (p ! 2) i j - rdv h7 (p ! 6) i j)"
    by (elim exE conjE) (rule that; assumption)
  note nt1 = f3 and nt2 = f4 and cs = f7 and S = f8 and R = f9 and c1 = f11 and c2 = f12
    and c3 = f13 and c4 = f14 and c5 = f15 and c6 = f16 and c7 = f17 and F = f21 and C = f22
  have s: "s = (map (\<lambda>i. vw (3 + i) 1) [0..<10])" and hA: "hA = H2 @ replicate 10 \<lparr>rows = 1, cols = 1, data = [0]\<rparr>"
    using nt1 by (simp_all add: H2_new_temps)
  have p: "p = (map (\<lambda>i. vw (13 + i) 1) [0..<7])" and hB: "hB = H2 @ replicate 17 \<lparr>rows = 1, cols = 1, data = [0]\<rparr>"
    using nt2 by (simp_all add: hA H2_new_temps)
  have sn: "s ! 0 = vw 3 1" "s ! 1 = vw 4 1" "s ! 2 = vw 5 1" "s ! 3 = vw 6 1" "s ! 4 = vw 7 1"
    "s ! 5 = vw 8 1" "s ! 6 = vw 9 1" "s ! 7 = vw 10 1" "s ! 8 = vw 11 1" "s ! 9 = vw 12 1"
    by (simp_all add: s del: upt_Suc One_nat_def)
  have pn: "p ! 0 = vw 13 1" "p ! 1 = vw 14 1" "p ! 2 = vw 15 1" "p ! 3 = vw 16 1" "p ! 4 = vw 17 1"
    "p ! 5 = vw 18 1" "p ! 6 = vw 19 1"
    by (simp_all add: p del: upt_Suc One_nat_def)
  have o: "(0::int) + 1 = 1" by simp
  have hs: "hs = H2_tmp 0" using cs unfolding s hB H2_compute_s by simp
  have h1: "h1 = H2_tmp 1" using c1 unfolding sn pn o hs H2_calls by simp
  have h2: "h2 = H2_tmp 2" using c2 unfolding sn pn o h1 H2_calls by simp
  have h3: "h3 = H2_tmp 3" using c3 unfolding sn pn o h2 H2_calls by simp
  have h4: "h4 = H2_tmp 4" using c4 unfolding sn pn o h3 H2_calls by simp
  have h5: "h5 = H2_tmp 5" using c5 unfolding sn pn o h4 H2_calls by simp
  have h6: "h6 = H2_tmp 6" using c6 unfolding sn pn o h5 H2_calls by simp
  have h7: "h7 = H2_tmp 7" using c7 unfolding sn pn o h6 H2_calls by simp
  have h': "h' = H2_product" using F unfolding PS_H2_product by simp
  have R': "P_Strassen_rel (q11 (vw 0 2) 1, vw 3 1, vw 13 1, 1, 1, H2_tmp 0)
                      (vw 0 2, vw 1 2, vw 2 2, 2, 0, H2)"
    using R unfolding sn pn o hs .
  have S': "rdv (H2_tmp 0) (vw 3 1) 0 0 = rdv H2 (q12 (vw 1 2) 1) 0 0 - rdv H2 (q22 (vw 1 2) 1) 0 0"
    using S [rule_format, of 0 0] unfolding sn hs by simp
  have C': "rdv H2_product (q12 (vw 2 2) 1) 0 0 = rdv (H2_tmp 7) (vw 13 1) 0 0 + rdv (H2_tmp 7) (vw 14 1) 0 0"
    using C [rule_format, of 0 0] unfolding pn h7 h' by simp
  have vals: "rdv (H2_tmp 0) (vw 3 1) 0 0 = - 2" "rdv (H2_tmp 7) (vw 13 1) 0 0 = - 2"
    "rdv (H2_tmp 7) (vw 14 1) 0 0 = 24" "rdv H2_product (q12 (vw 2 2) 1) 0 0 = 22"
    by (simp_all add: rdv_def cell_def vw_def q12_def H2_tmp_def H2_product_def H2_def nth_append)
  from a n wf_H2 views_H2(1-3) R' S' vals(1) H2_calls vals(2,3) PS_H2_product C' vals(4)
  show ?thesis by (intro conjI)
qed

end
